theory Spec2Isabelle
  imports Main
begin

section \<open>Strings and regular expressions of the validation rules\<close>

text \<open>
  A JavaScript string is a sequence of UTF-16 code units; the regular expressions of
  \<^verbatim>\<open>login.js\<close> carry no flag, so they work on code units. A code unit is a
  natural number here, and \<open>js\<close> turns an ASCII literal into such a string.
\<close>

type_synonym jsstring = "nat list"

definition js :: "string \<Rightarrow> jsstring" where
  "js s = map of_char s"

text \<open>
  The white space of \<^verbatim>\<open>String.prototype.trim\<close> and of the class
  \<^verbatim>\<open>\s\<close>: TAB, LF, VT, FF, CR, SP, NBSP, U+1680, U+2000 to U+200A, U+2028,
  U+2029, U+202F, U+205F, U+3000 and U+FEFF.
\<close>

definition is_space :: "nat \<Rightarrow> bool" where
  "is_space c \<longleftrightarrow>
     c \<in> {9, 10, 11, 12, 13, 32, 160, 5760, 8232, 8233, 8239, 8287, 12288, 65279}
     \<or> (8192 \<le> c \<and> c \<le> 8202)"

definition is_line_terminator :: "nat \<Rightarrow> bool" where
  "is_line_terminator c \<longleftrightarrow> c \<in> {10, 13, 8232, 8233}"

definition trim :: "jsstring \<Rightarrow> jsstring" where
  "trim s = rev (dropWhile is_space (rev (dropWhile is_space s)))"

text \<open>
  The members of a character class: a literal character, a range, \<^verbatim>\<open>\d\<close> and
  \<^verbatim>\<open>\s\<close>.
\<close>

datatype citem = Ch char | Rng char char | Digit | Space

fun in_item :: "citem \<Rightarrow> nat \<Rightarrow> bool" where
  "in_item (Ch a) c = (c = of_char a)"
| "in_item (Rng a b) c = (of_char a \<le> c \<and> c \<le> of_char b)"
| "in_item Digit c = (48 \<le> c \<and> c \<le> 57)"
| "in_item Space c = is_space c"

definition in_class :: "citem list \<Rightarrow> nat \<Rightarrow> bool" where
  "in_class cs c = list_ex (\<lambda>i. in_item i c) cs"

text \<open>
  The fragment of the pattern language the three expressions use: a class \<open>[...]\<close>, a
  negated class \<open>[^...]\<close>, the dot (any code unit but a line terminator), the
  assertions \<open>^\<close> and \<open>$\<close>, the empty pattern, concatenation, alternation, the star and
  the positive lookahead \<open>(?=...)\<close>.
\<close>

datatype rx = Set "citem list" | NSet "citem list" | Dot | Bol | Eol | Eps
  | Cat rx rx | Alt rx rx | Star rx | Look rx

text \<open>
  \<open>rx_run r (p, s)\<close> lists every way \<open>r\<close> can match at position \<open>p\<close>, where \<open>s\<close> is
  the input from \<open>p\<close> on: each result is the position after the match with the input
  left there. \<^verbatim>\<open>RegExp.prototype.test\<close> asks whether some match exists, so the
  order in which a backtracking matcher tries them does not matter. A star gives up an
  iteration that consumed nothing, as the language's semantics does.
\<close>

function (sequential) rx_run :: "rx \<Rightarrow> nat \<times> jsstring \<Rightarrow> (nat \<times> jsstring) list" where
  "rx_run (Set cs) (p, s) =
     (case s of [] \<Rightarrow> [] | c # t \<Rightarrow> if in_class cs c then [(Suc p, t)] else [])"
| "rx_run (NSet cs) (p, s) =
     (case s of [] \<Rightarrow> [] | c # t \<Rightarrow> if in_class cs c then [] else [(Suc p, t)])"
| "rx_run Dot (p, s) =
     (case s of [] \<Rightarrow> [] | c # t \<Rightarrow> if is_line_terminator c then [] else [(Suc p, t)])"
| "rx_run Bol (p, s) = (if p = 0 then [(p, s)] else [])"
| "rx_run Eol (p, s) = (if s = [] then [(p, s)] else [])"
| "rx_run Eps (p, s) = [(p, s)]"
| "rx_run (Cat a b) (p, s) = concat (map (rx_run b) (rx_run a (p, s)))"
| "rx_run (Alt a b) (p, s) = rx_run a (p, s) @ rx_run b (p, s)"
| "rx_run (Star a) (p, s) =
     (p, s) # concat (map (rx_run (Star a))
       (filter (\<lambda>(q, t). length t < length s) (rx_run a (p, s))))"
| "rx_run (Look a) (p, s) = (if rx_run a (p, s) = [] then [] else [(p, s)])"
  by pat_completeness auto
termination
  by (relation "measures [\<lambda>(r, p, s). size r, \<lambda>(r, p, s). length s]") auto

text \<open>\<^verbatim>\<open>re.test(s)\<close>: a match may start at any position of the input.\<close>

definition test :: "rx \<Rightarrow> jsstring \<Rightarrow> bool" where
  "test r s = list_ex (\<lambda>p. rx_run r (p, drop p s) \<noteq> []) [0..<Suc (length s)]"

text \<open>
  The quantifiers, written with the constructors above: \<open>seq\<close> concatenates a list of
  patterns, \<open>rep n a\<close> is \<open>a{n}\<close>, \<open>plus_rx a\<close> is \<open>a+\<close>, \<open>at_least n a\<close> is \<open>a{n,}\<close>,
  \<open>up_to n a\<close> is \<open>a{0,n}\<close> and \<open>between lo hi a\<close> is \<open>a{lo,hi}\<close>.
\<close>

fun seq :: "rx list \<Rightarrow> rx" where
  "seq [] = Eps"
| "seq (a # as) = Cat a (seq as)"

fun rep :: "nat \<Rightarrow> rx \<Rightarrow> rx" where
  "rep 0 a = Eps"
| "rep (Suc n) a = Cat a (rep n a)"

definition plus_rx :: "rx \<Rightarrow> rx" where
  "plus_rx a = Cat a (Star a)"

definition at_least :: "nat \<Rightarrow> rx \<Rightarrow> rx" where
  "at_least n a = Cat (rep n a) (Star a)"

fun up_to :: "nat \<Rightarrow> rx \<Rightarrow> rx" where
  "up_to 0 a = Eps"
| "up_to (Suc n) a = Alt Eps (Cat a (up_to n a))"

definition between :: "nat \<Rightarrow> nat \<Rightarrow> rx \<Rightarrow> rx" where
  "between lo hi a = Cat (rep lo a) (up_to (hi - lo) a)"

text \<open>
  The table \<^verbatim>\<open>re\<close> (lines 155 to 160):
  \<^verbatim>\<open>username: /^[a-zA-Z0-9_]{3,20}$/\<close>,
  \<^verbatim>\<open>email: /^[^\s@]+@[^\s@]+\.[^\s@]{2,}$/\<close> and \<open>strong\<close>, two lookaheads
  \<^verbatim>\<open>(?=.*[A-Za-z])(?=.*\d)\<close> followed by at least six characters of the class of
  letters, digits and the punctuation
  \<^verbatim>\<open>! @ # $ % ^ & * ( ) _ + - = { } [ ] : ; " ' < > ? , . /\<close>.
\<close>

definition word_class :: "citem list" where
  "word_class = [Rng CHR ''a'' CHR ''z'', Rng CHR ''A'' CHR ''Z'', Rng CHR ''0'' CHR ''9'', Ch CHR ''_'']"

definition re_username :: rx where
  "re_username = seq [Bol, between 3 20 (Set word_class), Eol]"

definition not_space_at :: "citem list" where
  "not_space_at = [Space, Ch CHR ''@'']"

definition re_email :: rx where
  "re_email = seq [Bol, plus_rx (NSet not_space_at), Set [Ch CHR ''@''], plus_rx (NSet not_space_at),
     Set [Ch CHR ''.''], at_least 2 (NSet not_space_at), Eol]"

definition letter_class :: "citem list" where
  "letter_class = [Rng CHR ''A'' CHR ''Z'', Rng CHR ''a'' CHR ''z'']"

definition strong_class :: "citem list" where
  "strong_class = [Rng CHR ''A'' CHR ''Z'', Rng CHR ''a'' CHR ''z'', Digit,
     Ch CHR ''!'', Ch CHR ''@'', Ch CHR ''#'', Ch CHR ''$'', Ch CHR ''%'', Ch CHR ''^'',
     Ch CHR ''&'', Ch CHR ''*'', Ch CHR ''('', Ch CHR '')'', Ch CHR ''_'', Ch CHR ''+'',
     Ch CHR ''-'', Ch CHR ''='', Ch CHR ''{'', Ch CHR ''}'', Ch CHR ''['', Ch CHR '']'',
     Ch CHR '':'', Ch CHR '';'', Ch (CHR 0x22), Ch (CHR 0x27), Ch CHR ''<'', Ch CHR ''>'',
     Ch CHR ''?'', Ch CHR '','', Ch CHR ''.'', Ch CHR ''/'']"

definition re_strong :: rx where
  "re_strong = seq [Bol, Look (Cat (Star Dot) (Set letter_class)),
     Look (Cat (Star Dot) (Set [Digit])), at_least 6 (Set strong_class), Eol]"

section \<open>Field validation\<close>

text \<open>
  The six messages of \<^verbatim>\<open>validateField\<close>, in the order of the source: enter a user
  name; 3 to 20 characters, Latin letters, digits and the underscore; enter an email;
  wrong email format; enter a password; at least 6 characters, a letter and a digit.
\<close>

datatype message = EnterUsername | UsernameFormat | EnterEmail | EmailFormat
  | EnterPassword | PasswordFormat

text \<open>
  An input element, as far as validation reads and writes it: its name and value, its
  \<^verbatim>\<open>aria-invalid\<close> attribute and the text its error element shows (\<open>None\<close> when the
  element is hidden or absent).
\<close>

record input =
  inp_name :: string
  inp_value :: jsstring
  aria_invalid :: "string option"
  error_text :: "message option"

definition setError :: "input \<Rightarrow> message \<Rightarrow> input" where
  "setError inp msg = inp\<lparr>aria_invalid := Some ''true'', error_text := Some msg\<rparr>"

definition clearError :: "input \<Rightarrow> input" where
  "clearError inp = inp\<lparr>aria_invalid := Some ''false'', error_text := None\<rparr>"

definition validateField :: "input \<Rightarrow> input" where
  "validateField inp =
     (let name = inp_name inp; val = trim (inp_value inp) in
      if name = ''username'' \<and> val = [] then setError inp EnterUsername
      else if name = ''username'' \<and> \<not> test re_username val then setError inp UsernameFormat
      else if name = ''email'' \<and> val = [] then setError inp EnterEmail
      else if name = ''email'' \<and> \<not> test re_email val then setError inp EmailFormat
      else if name = ''password'' \<and> val = [] then setError inp EnterPassword
      else if name = ''password'' \<and> \<not> test re_strong val then setError inp PasswordFormat
      else clearError inp)"

text \<open>
  The submit handler reads the verdict back from the attribute
  (\<^verbatim>\<open>inp.getAttribute('aria-invalid') === 'true'\<close>).
\<close>

definition invalid :: "input \<Rightarrow> bool" where
  "invalid inp \<longleftrightarrow> aria_invalid inp = Some ''true''"

definition field :: "string \<Rightarrow> string \<Rightarrow> input" where
  "field n v = \<lparr>inp_name = n, inp_value = js v, aria_invalid = None, error_text = None\<rparr>"

section \<open>The document\<close>

text \<open>
  An element inside a dialog, as far as \<^verbatim>\<open>getFocusables\<close> reads it: its identity,
  its tag name in lower case and its attributes (an HTML parser keeps the first of
  two attributes of one name, as \<open>map_of\<close> does).
\<close>

record element =
  el_id :: nat
  tag :: string
  attrs :: "(string \<times> string) list"

definition getAttribute :: "element \<Rightarrow> string \<Rightarrow> string option" where
  "getAttribute el n = map_of (attrs el) n"

definition hasAttribute :: "element \<Rightarrow> string \<Rightarrow> bool" where
  "hasAttribute el n \<longleftrightarrow> getAttribute el n \<noteq> None"

text \<open>
  The selector of line 47:
  \<^verbatim>\<open>button, [href], input, select, textarea, [tabindex]:not([tabindex="-1"])\<close>.
\<close>

definition matches_selector :: "element \<Rightarrow> bool" where
  "matches_selector el \<longleftrightarrow>
     tag el = ''button'' \<or> hasAttribute el ''href'' \<or> tag el = ''input'' \<or> tag el = ''select''
     \<or> tag el = ''textarea''
     \<or> (hasAttribute el ''tabindex'' \<and> getAttribute el ''tabindex'' \<noteq> Some ''-1'')"

text \<open>
  \<^verbatim>\<open>!el.getAttribute('aria-hidden')\<close> negates the truthiness of the attribute's value:
  \<^verbatim>\<open>null\<close> (no attribute) and the empty string are falsy, every other string is
  truthy.
\<close>

definition truthy :: "string option \<Rightarrow> bool" where
  "truthy v = (case v of None \<Rightarrow> False | Some x \<Rightarrow> x \<noteq> [])"

text \<open>
  \<^verbatim>\<open>getFocusables(root)\<close>; \<open>root\<close> is given by its descendants in document order,
  which is what \<^verbatim>\<open>querySelectorAll\<close> ranges over.
\<close>

definition getFocusables :: "element list \<Rightarrow> element list" where
  "getFocusables root =
     filter (\<lambda>el. \<not> hasAttribute el ''disabled'' \<and> \<not> truthy (getAttribute el ''aria-hidden''))
       (filter matches_selector root)"

text \<open>
  The two dialog containers, \<^verbatim>\<open>#register-window\<close> and \<^verbatim>\<open>#login-window\<close>.
\<close>

datatype modal = RegisterWindow | LoginWindow

text \<open>
  What \<^verbatim>\<open>modals[key]\<close> can give besides \<^verbatim>\<open>undefined\<close> and \<^verbatim>\<open>null\<close>, and so what
  \<^verbatim>\<open>activeModal\<close> can hold: one of the two containers, or the function or object
  that the object literal inherits from \<^verbatim>\<open>Object.prototype\<close> under the given name.
  Such a value is truthy and is no element: it has neither \<^verbatim>\<open>classList\<close> nor
  \<^verbatim>\<open>removeEventListener\<close>.
\<close>

datatype target = Container modal | Inherited string

text \<open>
  Every call of \<^verbatim>\<open>animateOpen\<close>, \<^verbatim>\<open>animateClose\<close> and of the second half of
  \<^verbatim>\<open>openModal\<close> creates a new function object; \<^verbatim>\<open>removeEventListener\<close> removes
  by identity. Each closure therefore carries a number of its own. A promise is
  resolved by its \<^verbatim>\<open>onEnd\<close> and by nothing else, so the call of \<^verbatim>\<open>openModal\<close> or
  \<^verbatim>\<open>closeModal\<close> that awaits it is suspended exactly as long as that listener is
  registered. A trap closes over \<^verbatim>\<open>first\<close> and \<^verbatim>\<open>last\<close>, which are
  \<^verbatim>\<open>undefined\<close> (\<open>None\<close>) when there is no focusable element.
\<close>

datatype anim_listener = OnEndOpen nat | OnEndClose nat

datatype trap = Trap (trap_closure: nat) (trap_first: "element option") (trap_last: "element option")

record modal_el =
  hidden :: bool
  is_opening :: bool
  is_closing :: bool
  animationend :: "anim_listener list"
  keydown :: "trap list"
  trap_prop :: "trap option"
  descendants :: "element list"

datatype js_error = TypeError

text \<open>
  The state the controller reads and writes: which containers the page has (\<^verbatim>\<open>qs\<close>
  gives \<^verbatim>\<open>null\<close> for a missing one), the containers, the header and its
  \<^verbatim>\<open>aria-hidden\<close> attribute, \<^verbatim>\<open>document.documentElement.style.overflow\<close>,
  \<^verbatim>\<open>activeModal\<close>, the identity of \<^verbatim>\<open>document.activeElement\<close> (\<open>None\<close> for the
  body), the number of the next closure, and the exceptions no handler caught.
\<close>

record state =
  modal_present :: "modal \<Rightarrow> bool"
  modal_el :: "modal \<Rightarrow> modal_el"
  header_present :: bool
  header_aria_hidden :: "string option"
  overflow :: string
  activeModal :: "target option"
  activeElement :: "nat option"
  next_closure :: nat
  uncaught :: "js_error list"

definition upd :: "modal \<Rightarrow> (modal_el \<Rightarrow> modal_el) \<Rightarrow> state \<Rightarrow> state" where
  "upd m f s = s\<lparr>modal_el := (modal_el s)(m := f (modal_el s m))\<rparr>"

text \<open>
  The object \<^verbatim>\<open>modals\<close> of lines 14 to 17 is an object literal with the two keys
  \<open>register\<close> and \<open>login\<close>, each with the container \<^verbatim>\<open>qs\<close> found or \<^verbatim>\<open>null\<close>.
  \<^verbatim>\<open>modals[key]\<close> looks the key up along the prototype chain: for a name of
  \<^verbatim>\<open>Object.prototype\<close> it gives the inherited function or object, and for any other
  key \<^verbatim>\<open>undefined\<close>. The key is the \<^verbatim>\<open>data-open\<close> value of the button clicked, any
  string the page's markup holds. \<open>None\<close> stands for \<^verbatim>\<open>null\<close> and \<^verbatim>\<open>undefined\<close>,
  the two falsy results.
\<close>

definition object_prototype_names :: "string list" where
  "object_prototype_names =
     [''constructor'', ''hasOwnProperty'', ''isPrototypeOf'', ''propertyIsEnumerable'',
      ''toLocaleString'', ''toString'', ''valueOf'', ''__proto__'', ''__defineGetter__'',
      ''__defineSetter__'', ''__lookupGetter__'', ''__lookupSetter__'']"

definition modals :: "state \<Rightarrow> string \<Rightarrow> target option" where
  "modals s key =
     (if key = ''register''
      then (if modal_present s RegisterWindow then Some (Container RegisterWindow) else None)
      else if key = ''login''
      then (if modal_present s LoginWindow then Some (Container LoginWindow) else None)
      else if key \<in> set object_prototype_names then Some (Inherited key)
      else None)"

definition addEventListener :: "'a \<Rightarrow> 'a list \<Rightarrow> 'a list" where
  "addEventListener l ls = (if l \<in> set ls then ls else ls @ [l])"

definition removeEventListener :: "'a \<Rightarrow> 'a list \<Rightarrow> 'a list" where
  "removeEventListener l ls = filter (\<lambda>x. x \<noteq> l) ls"

definition focus :: "element \<Rightarrow> state \<Rightarrow> state" where
  "focus el s = s\<lparr>activeElement := Some (el_id el)\<rparr>"

text \<open>
  An exception that nothing catches ends the function that raised it and is
  reported: as an uncaught exception when it leaves an event listener, as an
  unhandled rejection when it leaves an \<^verbatim>\<open>async\<close> function.
\<close>

definition throw :: "js_error \<Rightarrow> state \<Rightarrow> state" where
  "throw err s = s\<lparr>uncaught := uncaught s @ [err]\<rparr>"

section \<open>Animations, open and close\<close>

text \<open>
  \<^verbatim>\<open>animateOpen\<close> and \<^verbatim>\<open>animateClose\<close> up to the promise they return (lines 56 to
  68 and 71 to 83): the class changes and the registration of \<^verbatim>\<open>onEnd\<close>. On a value
  that is no element, line 57 of \<^verbatim>\<open>animateOpen\<close> only sets a property \<open>hidden\<close> on
  that object, and line 58 throws, since \<^verbatim>\<open>modal.classList\<close> is \<^verbatim>\<open>undefined\<close>.
  \<^verbatim>\<open>animateClose\<close> is reached with a container only.
\<close>

definition animateOpen :: "target \<Rightarrow> state \<Rightarrow> state" where
  "animateOpen modal s =
     (case modal of
        Container m \<Rightarrow>
          upd m (\<lambda>e. e\<lparr>hidden := False, is_closing := False, is_opening := True,
              animationend := addEventListener (OnEndOpen (next_closure s)) (animationend e)\<rparr>)
            (s\<lparr>next_closure := Suc (next_closure s)\<rparr>)
      | Inherited n \<Rightarrow> throw TypeError s)"

definition animateClose :: "modal \<Rightarrow> state \<Rightarrow> state" where
  "animateClose modal s =
     upd modal (\<lambda>e. e\<lparr>is_opening := False, is_closing := True,
         animationend := addEventListener (OnEndClose (next_closure s)) (animationend e)\<rparr>)
       (s\<lparr>next_closure := Suc (next_closure s)\<rparr>)"

text \<open>\<^verbatim>\<open>openModal\<close> up to its \<^verbatim>\<open>await\<close> (lines 87 to 92).\<close>

definition openModal :: "string \<Rightarrow> state \<Rightarrow> state" where
  "openModal key s =
     (case modals s key of
        None \<Rightarrow> s
      | Some modal \<Rightarrow>
          if activeModal s \<noteq> None then s
          else animateOpen modal (s\<lparr>activeModal := Some modal\<rparr>))"

text \<open>
  The rest of \<^verbatim>\<open>openModal\<close> (lines 94 to 113), which runs when the promise of
  \<^verbatim>\<open>animateOpen\<close> is resolved.
\<close>

definition open_continuation :: "modal \<Rightarrow> state \<Rightarrow> state" where
  "open_continuation modal s =
     (let s1 = s\<lparr>overflow := ''hidden''\<rparr>;
          s2 = (if header_present s1 then s1\<lparr>header_aria_hidden := Some ''true''\<rparr> else s1);
          focusables = getFocusables (descendants (modal_el s2 modal));
          first = (case focusables of [] \<Rightarrow> None | x # _ \<Rightarrow> Some x);
          lst = (if focusables = [] then None else Some (last focusables));
          t = Trap (next_closure s2) first lst;
          s3 = upd modal (\<lambda>e. e\<lparr>trap_prop := Some t, keydown := addEventListener t (keydown e)\<rparr>)
                 (s2\<lparr>next_closure := Suc (next_closure s2)\<rparr>)
      in case first of None \<Rightarrow> s3 | Some f \<Rightarrow> focus f s3)"

text \<open>
  \<^verbatim>\<open>closeModal\<close> up to its \<^verbatim>\<open>await\<close> (lines 116 to 121); without a \<^verbatim>\<open>_trap\<close>
  the function removed is a new one, which no list holds. When \<^verbatim>\<open>activeModal\<close> is
  no element, \<^verbatim>\<open>m.removeEventListener\<close> is \<^verbatim>\<open>undefined\<close> and the call at line 120
  throws.
\<close>

definition closeModal :: "state \<Rightarrow> state" where
  "closeModal s =
     (case activeModal s of
        None \<Rightarrow> s
      | Some (Inherited n) \<Rightarrow> throw TypeError s
      | Some (Container m) \<Rightarrow>
          animateClose m
            (upd m (\<lambda>e. case trap_prop e of
                           None \<Rightarrow> e
                         | Some t \<Rightarrow> e\<lparr>keydown := removeEventListener t (keydown e)\<rparr>) s))"

text \<open>The rest of \<^verbatim>\<open>closeModal\<close> (lines 123 to 125).\<close>

definition close_continuation :: "state \<Rightarrow> state" where
  "close_continuation s =
     (let s1 = s\<lparr>activeModal := None, overflow := []\<rparr>
      in if header_present s1 then s1\<lparr>header_aria_hidden := None\<rparr> else s1)"

text \<open>
  The two \<^verbatim>\<open>onEnd\<close> listeners, called with an event whose target is the container
  (\<open>at_modal\<close>) or one of its descendants. The browser delivers the event with an
  empty stack, so the continuation of the resolved promise runs as soon as the
  listener returns, before the next listener.
\<close>

fun onEnd :: "modal \<Rightarrow> anim_listener \<Rightarrow> bool \<Rightarrow> state \<Rightarrow> state" where
  "onEnd modal (OnEndOpen i) at_modal s =
     (if \<not> at_modal then s
      else open_continuation modal
             (upd modal (\<lambda>e. e\<lparr>is_opening := False,
                 animationend := removeEventListener (OnEndOpen i) (animationend e)\<rparr>) s))"
| "onEnd modal (OnEndClose i) at_modal s =
     (if \<not> at_modal then s
      else close_continuation
             (upd modal (\<lambda>e. e\<lparr>is_closing := False, hidden := True,
                 animationend := removeEventListener (OnEndClose i) (animationend e)\<rparr>) s))"

text \<open>
  The trap of lines 102 to 111; the result says whether \<^verbatim>\<open>preventDefault\<close> was
  called. \<^verbatim>\<open>document.activeElement\<close> is an element or \<^verbatim>\<open>null\<close> and never strictly
  equal to \<^verbatim>\<open>undefined\<close>; calling \<^verbatim>\<open>focus\<close> on \<^verbatim>\<open>undefined\<close> throws.
\<close>

datatype key = Tab | Escape | OtherKey

definition same_node :: "nat option \<Rightarrow> element option \<Rightarrow> bool" where
  "same_node a x = (case (a, x) of (Some i, Some el) \<Rightarrow> i = el_id el | _ \<Rightarrow> False)"

definition trap_handler :: "trap \<Rightarrow> key \<Rightarrow> bool \<Rightarrow> state \<Rightarrow> state \<times> bool" where
  "trap_handler t k shiftKey s =
     (if k \<noteq> Tab then (s, False)
      else if shiftKey \<and> same_node (activeElement s) (trap_first t) then
        (case trap_last t of None \<Rightarrow> (throw TypeError s, False) | Some l \<Rightarrow> (focus l s, True))
      else if \<not> shiftKey \<and> same_node (activeElement s) (trap_last t) then
        (case trap_first t of None \<Rightarrow> (throw TypeError s, False) | Some f \<Rightarrow> (focus f s, True))
      else (s, False))"

section \<open>Events\<close>

text \<open>
  What the page can send to the handlers of lines 128 to 145: a click on a
  \<^verbatim>\<open>[data-open]\<close> button with its key, a click on a \<^verbatim>\<open>[data-close]\<close> button, a
  mousedown reaching a container (on the container itself or inside it), a keydown
  (the key, the shift state and the container the target lies in, if any), an
  \<^verbatim>\<open>animationend\<close> reaching a container (from the container itself or bubbling from a
  descendant), and anything else, for which the controller has no handler.
\<close>

datatype event =
    ClickOpen string
  | ClickClose
  | MouseDown modal bool
  | KeyDown key bool "modal option"
  | AnimationEnd modal bool
  | Other

text \<open>
  An event runs the listeners that were registered when it was dispatched, in the
  order of their registration, and skips one that was removed meanwhile.
\<close>

definition dispatch_animationend :: "modal \<Rightarrow> bool \<Rightarrow> state \<Rightarrow> state" where
  "dispatch_animationend m at_modal s =
     foldl (\<lambda>s' l. if l \<in> set (animationend (modal_el s' m)) then onEnd m l at_modal s' else s')
       s (animationend (modal_el s m))"

definition dispatch_keydown :: "modal \<Rightarrow> key \<Rightarrow> bool \<Rightarrow> state \<Rightarrow> state" where
  "dispatch_keydown m k shiftKey s =
     foldl (\<lambda>s' t. if t \<in> set (keydown (modal_el s' m)) then fst (trap_handler t k shiftKey s') else s')
       s (keydown (modal_el s m))"

fun step :: "event \<Rightarrow> state \<Rightarrow> state" where
  "step (ClickOpen k) s = openModal k s"
| "step ClickClose s = closeModal s"
| "step (MouseDown m at_modal) s = (if modal_present s m \<and> at_modal then closeModal s else s)"
| "step (KeyDown k shiftKey inside) s =
     (let s1 = (case inside of None \<Rightarrow> s | Some m \<Rightarrow> dispatch_keydown m k shiftKey s)
      in if k = Escape then closeModal s1 else s1)"
| "step (AnimationEnd m at_modal) s = dispatch_animationend m at_modal s"
| "step Other s = s"

definition run :: "event list \<Rightarrow> state \<Rightarrow> state" where
  "run evs s = foldl (\<lambda>s' e. step e s') s evs"

text \<open>
  A page for the examples: both dialogs, hidden and at rest, with the descendants
  given, and a header; and a login dialog of two inputs, a submit button and a close
  button.
\<close>

definition closed_el :: "element list \<Rightarrow> modal_el" where
  "closed_el ds = \<lparr>hidden = True, is_opening = False, is_closing = False, animationend = [],
     keydown = [], trap_prop = None, descendants = ds\<rparr>"

definition login_form :: "element list" where
  "login_form =
     [\<lparr>el_id = 1, tag = ''input'', attrs = [(''name'', ''username'')]\<rparr>,
      \<lparr>el_id = 2, tag = ''input'', attrs = [(''name'', ''password'')]\<rparr>,
      \<lparr>el_id = 3, tag = ''button'', attrs = [(''type'', ''submit'')]\<rparr>,
      \<lparr>el_id = 4, tag = ''button'', attrs = [(''data-close'', [])]\<rparr>]"

definition page :: "element list \<Rightarrow> element list \<Rightarrow> state" where
  "page reg login = \<lparr>modal_present = (\<lambda>m. True),
     modal_el = (\<lambda>m. closed_el (case m of RegisterWindow \<Rightarrow> reg | LoginWindow \<Rightarrow> login)),
     header_present = True,
     header_aria_hidden = None, overflow = [], activeModal = None, activeElement = None,
     next_closure = 0, uncaught = []\<rparr>"

section \<open>Auxiliary notions of the proofs\<close>

text \<open>
  The rule table in the words of the specification: for each field name the checks
  in priority order, "required" before "format", each with its message; the verdict
  is the message of the first check that fails, and none when all hold.
\<close>

definition spec_rules :: "string \<Rightarrow> ((jsstring \<Rightarrow> bool) \<times> message) list" where
  "spec_rules n =
     (if n = ''username'' then [(\<lambda>v. v \<noteq> [], EnterUsername), (test re_username, UsernameFormat)]
      else if n = ''email'' then [(\<lambda>v. v \<noteq> [], EnterEmail), (test re_email, EmailFormat)]
      else if n = ''password'' then [(\<lambda>v. v \<noteq> [], EnterPassword), (test re_strong, PasswordFormat)]
      else [])"

fun spec_first_failing :: "((jsstring \<Rightarrow> bool) \<times> message) list \<Rightarrow> jsstring \<Rightarrow> message option" where
  "spec_first_failing [] v = None"
| "spec_first_failing ((holds, msg) # rs) v = (if holds v then spec_first_failing rs v else Some msg)"

text \<open>
  A pattern that consumes exactly one code unit satisfying \<open>P\<close>, and a relation
  between two states that differ at most in the focused element and in the list of
  uncaught exceptions.
\<close>

definition single :: "(nat \<Rightarrow> bool) \<Rightarrow> rx \<Rightarrow> bool" where
  "single P a \<longleftrightarrow> (\<forall>p s. rx_run a (p, s) =
     (case s of [] \<Rightarrow> [] | c # t \<Rightarrow> if P c then [(Suc p, t)] else []))"

definition frame :: "state \<Rightarrow> state \<Rightarrow> bool" where
  "frame s s' \<longleftrightarrow>
     modal_el s' = modal_el s \<and> overflow s' = overflow s
     \<and> header_aria_hidden s' = header_aria_hidden s \<and> activeModal s' = activeModal s
     \<and> modal_present s' = modal_present s \<and> header_present s' = header_present s
     \<and> next_closure s' = next_closure s"

text \<open>
  The trap that the second half of \<open>openModal\<close> builds in a given state.
\<close>

definition made_trap :: "modal \<Rightarrow> state \<Rightarrow> trap" where
  "made_trap m s =
     (let focusables = getFocusables (descendants (modal_el s m))
      in Trap (next_closure s) (case focusables of [] \<Rightarrow> None | x # _ \<Rightarrow> Some x)
           (if focusables = [] then None else Some (last focusables)))"

text \<open>
  A dialog at rest is hidden, carries neither transition class and awaits no
  animation. The invariant of the controller: every dialog but the one in
  \<open>activeModal\<close> is at rest, and a dialog with the class \<open>is-opening\<close> has its open
  animation pending.
\<close>

definition at_rest :: "modal_el \<Rightarrow> bool" where
  "at_rest e \<longleftrightarrow> hidden e \<and> \<not> is_opening e \<and> \<not> is_closing e \<and> animationend e = []"

fun is_open_listener :: "anim_listener \<Rightarrow> bool" where
  "is_open_listener (OnEndOpen i) = True"
| "is_open_listener (OnEndClose i) = False"

definition open_pending :: "modal_el \<Rightarrow> bool" where
  "open_pending e \<longleftrightarrow> list_ex is_open_listener (animationend e)"

definition one_active :: "state \<Rightarrow> bool" where
  "one_active s \<longleftrightarrow>
     list_all (\<lambda>m. (activeModal s = Some (Container m) \<or> at_rest (modal_el s m))
                  \<and> (open_pending (modal_el s m) \<or> \<not> is_opening (modal_el s m)))
       [RegisterWindow, LoginWindow]"

section \<open>The regular expressions\<close>

declare rx_run.simps(9) [simp del]

lemma single_Set: "single (in_class cs) (Set cs)"
  by (simp add: single_def)

lemma single_NSet: "single (\<lambda>c. \<not> in_class cs c) (NSet cs)"
  by (auto simp: single_def split: list.splits)

lemma single_Dot: "single (\<lambda>c. \<not> is_line_terminator c) Dot"
  by (auto simp: single_def split: list.splits)

lemma star_single_Nil: "single P a \<Longrightarrow> rx_run (Star a) (p, []) = [(p, [])]"
  by (simp add: single_def rx_run.simps(9))

lemma star_single_Cons:
  "single P a \<Longrightarrow> rx_run (Star a) (p, c # t) =
     (p, c # t) # (if P c then rx_run (Star a) (Suc p, t) else [])"
  by (simp add: single_def rx_run.simps(9))

lemma star_single:
  "single P a \<Longrightarrow> set (rx_run (Star a) (p, s)) =
     {(p + k, drop k s) |k. k \<le> length (takeWhile P s)}"
proof (induction s arbitrary: p)
  case Nil
  then show ?case by (simp add: star_single_Nil)
next
  case (Cons c t)
  show ?case
  proof (cases "P c")
    case False
    with Cons.prems show ?thesis by (simp add: star_single_Cons[OF Cons.prems])
  next
    case True
    have "set (rx_run (Star a) (p, c # t)) =
        insert (p, c # t) {(Suc p + k, drop k t) |k. k \<le> length (takeWhile P t)}"
      using Cons.IH[OF Cons.prems, of "Suc p"] True by (simp add: star_single_Cons[OF Cons.prems])
    also have "\<dots> = {(p + k, drop k (c # t)) |k. k \<le> length (takeWhile P (c # t))}"
    proof (intro set_eqI iffI)
      fix x
      assume "x \<in> insert (p, c # t) {(Suc p + k, drop k t) |k. k \<le> length (takeWhile P t)}"
      then consider "x = (p, c # t)" | k where "x = (Suc p + k, drop k t)" "k \<le> length (takeWhile P t)"
        by auto
      then show "x \<in> {(p + k, drop k (c # t)) |k. k \<le> length (takeWhile P (c # t))}"
      proof cases
        case 1
        then show ?thesis by (intro CollectI exI[of _ 0]) simp
      next
        case 2
        then show ?thesis using True by (intro CollectI exI[of _ "Suc k"]) simp
      qed
    next
      fix x
      assume "x \<in> {(p + k, drop k (c # t)) |k. k \<le> length (takeWhile P (c # t))}"
      then obtain k where k: "x = (p + k, drop k (c # t))" "k \<le> length (takeWhile P (c # t))"
        by auto
      show "x \<in> insert (p, c # t) {(Suc p + k, drop k t) |k. k \<le> length (takeWhile P t)}"
      proof (cases k)
        case 0
        with k show ?thesis by simp
      next
        case (Suc j)
        with k True show ?thesis by auto
      qed
    qed
    finally show ?thesis .
  qed
qed

lemma rep_single:
  "single P a \<Longrightarrow> set (rx_run (rep n a) (p, s)) =
     (if n \<le> length (takeWhile P s) then {(p + n, drop n s)} else {})"
proof (induction n arbitrary: p s)
  case 0
  then show ?case by simp
next
  case (Suc n)
  show ?case
  proof (cases s)
    case Nil
    with Suc.prems show ?thesis by (simp add: single_def)
  next
    case (Cons c t)
    with Suc show ?thesis by (simp add: single_def)
  qed
qed

lemma up_to_single:
  "single P a \<Longrightarrow> set (rx_run (up_to n a) (p, s)) =
     {(p + k, drop k s) |k. k \<le> n \<and> k \<le> length (takeWhile P s)}"
proof (induction n arbitrary: p s)
  case 0
  then show ?case by simp
next
  case (Suc n)
  show ?case
  proof (cases s)
    case Nil
    with Suc.prems show ?thesis by (simp add: single_def)
  next
    case (Cons c t)
    show ?thesis
    proof (cases "P c")
      case False
      with Suc.prems Cons show ?thesis by (simp add: single_def)
    next
      case True
      have "set (rx_run (up_to (Suc n) a) (p, s)) =
        insert (p, s) {(Suc p + k, drop k t) |k. k \<le> n \<and> k \<le> length (takeWhile P t)}"
        using Suc.prems True Cons Suc.IH[OF Suc.prems, of "Suc p" t] by (simp add: single_def)
      also have "\<dots> = {(p + k, drop k s) |k. k \<le> Suc n \<and> k \<le> length (takeWhile P s)}"
      proof (intro set_eqI iffI)
        fix x
        assume "x \<in> insert (p, s) {(Suc p + k, drop k t) |k. k \<le> n \<and> k \<le> length (takeWhile P t)}"
        then consider "x = (p, s)"
          | k where "x = (Suc p + k, drop k t)" "k \<le> n" "k \<le> length (takeWhile P t)"
          by auto
        then show "x \<in> {(p + k, drop k s) |k. k \<le> Suc n \<and> k \<le> length (takeWhile P s)}"
        proof cases
          case 1
          then show ?thesis by (intro CollectI exI[of _ 0]) simp
        next
          case 2
          then show ?thesis using True Cons by (intro CollectI exI[of _ "Suc k"]) simp
        qed
      next
        fix x
        assume "x \<in> {(p + k, drop k s) |k. k \<le> Suc n \<and> k \<le> length (takeWhile P s)}"
        then obtain k where k: "x = (p + k, drop k s)" "k \<le> Suc n" "k \<le> length (takeWhile P s)"
          by auto
        show "x \<in> insert (p, s) {(Suc p + k, drop k t) |k. k \<le> n \<and> k \<le> length (takeWhile P t)}"
        proof (cases k)
          case 0
          with k show ?thesis by simp
        next
          case (Suc j)
          with k True Cons show ?thesis by auto
        qed
      qed
      finally show ?thesis .
    qed
  qed
qed

lemma test_Bol: "test (Cat Bol r) s \<longleftrightarrow> rx_run r (0, s) \<noteq> []"
proof -
  have "list_ex (\<lambda>p. rx_run (Cat Bol r) (p, drop p s) \<noteq> []) [0..<Suc (length s)]
      \<longleftrightarrow> (\<exists>p\<le>length s. rx_run (Cat Bol r) (p, drop p s) \<noteq> [])"
    by (auto simp: list_ex_iff less_Suc_eq_le)
  also have "\<dots> \<longleftrightarrow> rx_run r (0, s) \<noteq> []"
    by (auto split: if_splits)
  finally show ?thesis by (simp add: test_def)
qed

lemma run_nonempty: "rx_run r x \<noteq> [] \<longleftrightarrow> set (rx_run r x) \<noteq> {}"
  by simp

lemma set_run_Cat: "set (rx_run (Cat a b) x) = (\<Union>y\<in>set (rx_run a x). set (rx_run b y))"
  by (cases x) simp

lemma set_run_Eol_Eps: "set (rx_run (Cat Eol Eps) (p, s)) = (if s = [] then {(p, s)} else {})"
  by simp

lemma takeWhile_drop_length:
  "k \<le> length (takeWhile P s) \<Longrightarrow> length (takeWhile P (drop k s)) = length (takeWhile P s) - k"
proof (induction s arbitrary: k)
  case Nil
  then show ?case by simp
next
  case (Cons c t)
  then show ?case by (cases k) (auto split: if_splits)
qed

lemma takeWhile_length_all: "length (takeWhile P s) = length s \<longleftrightarrow> list_all P s"
proof (induction s)
  case Nil
  then show ?case by simp
next
  case (Cons c t)
  have "length (takeWhile P t) \<le> length t" by (rule length_takeWhile_le)
  with Cons show ?case by auto
qed

lemma set_run_between:
  assumes "single P a"
  shows "set (rx_run (between lo hi a) (p, s)) =
     (if lo \<le> length (takeWhile P s)
      then {(p + lo + k, drop (lo + k) s) |k. k \<le> hi - lo \<and> lo + k \<le> length (takeWhile P s)}
      else {})"
proof (cases "lo \<le> length (takeWhile P s)")
  case False
  then show ?thesis
    by (simp add: between_def rep_single[OF assms])
next
  case True
  have "set (rx_run (between lo hi a) (p, s)) = set (rx_run (up_to (hi - lo) a) (p + lo, drop lo s))"
    using True by (simp add: between_def rep_single[OF assms])
  also have "\<dots> = {(p + lo + k, drop k (drop lo s)) |k.
      k \<le> hi - lo \<and> k \<le> length (takeWhile P (drop lo s))}"
    by (simp add: up_to_single[OF assms])
  also have "\<dots> = {(p + lo + k, drop (lo + k) s) |k. k \<le> hi - lo \<and> lo + k \<le> length (takeWhile P s)}"
    using True by (auto simp: takeWhile_drop_length add.commute)
  finally show ?thesis using True by simp
qed

lemma set_run_at_least:
  assumes "single P a"
  shows "set (rx_run (at_least n a) (p, s)) =
     (if n \<le> length (takeWhile P s)
      then {(p + n + k, drop (n + k) s) |k. n + k \<le> length (takeWhile P s)}
      else {})"
proof (cases "n \<le> length (takeWhile P s)")
  case False
  then show ?thesis
    by (simp add: at_least_def rep_single[OF assms])
next
  case True
  have "set (rx_run (at_least n a) (p, s)) = set (rx_run (Star a) (p + n, drop n s))"
    using True by (simp add: at_least_def rep_single[OF assms])
  also have "\<dots> = {(p + n + k, drop k (drop n s)) |k. k \<le> length (takeWhile P (drop n s))}"
    by (simp add: star_single[OF assms])
  also have "\<dots> = {(p + n + k, drop (n + k) s) |k. n + k \<le> length (takeWhile P s)}"
    using True by (auto simp: takeWhile_drop_length add.commute)
  finally show ?thesis using True by simp
qed

lemma run_then_Eol:
  "rx_run (Cat a (Cat Eol Eps)) x \<noteq> [] \<longleftrightarrow> (\<exists>q. (q, []) \<in> set (rx_run a x))"
proof -
  have "rx_run (Cat a (Cat Eol Eps)) x \<noteq> [] \<longleftrightarrow>
      (\<exists>y\<in>set (rx_run a x). set (rx_run (Cat Eol Eps) y) \<noteq> {})"
    unfolding run_nonempty set_run_Cat[of a] by auto
  also have "\<dots> \<longleftrightarrow> (\<exists>q. (q, []) \<in> set (rx_run a x))"
  proof
    assume "\<exists>y\<in>set (rx_run a x). set (rx_run (Cat Eol Eps) y) \<noteq> {}"
    then obtain q t where "(q, t) \<in> set (rx_run a x)" "set (rx_run (Cat Eol Eps) (q, t)) \<noteq> {}"
      by auto
    then show "\<exists>q. (q, []) \<in> set (rx_run a x)"
      by (cases "t = []") auto
  next
    assume "\<exists>q. (q, []) \<in> set (rx_run a x)"
    then obtain q where "(q, []) \<in> set (rx_run a x)" ..
    moreover have "set (rx_run (Cat Eol Eps) (q, [])) \<noteq> {}" by simp
    ultimately show "\<exists>y\<in>set (rx_run a x). set (rx_run (Cat Eol Eps) y) \<noteq> {}" by blast
  qed
  finally show ?thesis .
qed

lemma between_Eol:
  assumes "single P a" and "lo \<le> hi"
  shows "rx_run (Cat (between lo hi a) (Cat Eol Eps)) (p, s) \<noteq> [] \<longleftrightarrow>
     lo \<le> length s \<and> length s \<le> hi \<and> list_all P s"
proof -
  let ?n = "length (takeWhile P s)"
  have n: "?n \<le> length s" by (rule length_takeWhile_le)
  have "rx_run (Cat (between lo hi a) (Cat Eol Eps)) (p, s) \<noteq> [] \<longleftrightarrow>
      lo \<le> ?n \<and> (\<exists>k. k \<le> hi - lo \<and> lo + k \<le> ?n \<and> length s \<le> lo + k)"
    unfolding run_then_Eol set_run_between[OF assms(1)] by auto
  also have "\<dots> \<longleftrightarrow> lo \<le> length s \<and> length s \<le> hi \<and> ?n = length s"
  proof
    assume "lo \<le> ?n \<and> (\<exists>k. k \<le> hi - lo \<and> lo + k \<le> ?n \<and> length s \<le> lo + k)"
    with n assms(2) show "lo \<le> length s \<and> length s \<le> hi \<and> ?n = length s" by auto
  next
    assume r: "lo \<le> length s \<and> length s \<le> hi \<and> ?n = length s"
    then have "length s - lo \<le> hi - lo \<and> lo + (length s - lo) \<le> ?n \<and> length s \<le> lo + (length s - lo)"
      by auto
    with r show "lo \<le> ?n \<and> (\<exists>k. k \<le> hi - lo \<and> lo + k \<le> ?n \<and> length s \<le> lo + k)"
      by metis
  qed
  finally show ?thesis by (simp add: takeWhile_length_all)
qed

lemma at_least_Eol:
  assumes "single P a"
  shows "rx_run (Cat (at_least n a) (Cat Eol Eps)) (p, s) \<noteq> [] \<longleftrightarrow> n \<le> length s \<and> list_all P s"
proof -
  let ?n = "length (takeWhile P s)"
  have n: "?n \<le> length s" by (rule length_takeWhile_le)
  have "rx_run (Cat (at_least n a) (Cat Eol Eps)) (p, s) \<noteq> [] \<longleftrightarrow>
      n \<le> ?n \<and> (\<exists>k. n + k \<le> ?n \<and> length s \<le> n + k)"
    unfolding run_then_Eol set_run_at_least[OF assms] by auto
  also have "\<dots> \<longleftrightarrow> n \<le> length s \<and> ?n = length s"
  proof
    assume "n \<le> ?n \<and> (\<exists>k. n + k \<le> ?n \<and> length s \<le> n + k)"
    with n show "n \<le> length s \<and> ?n = length s" by auto
  next
    assume r: "n \<le> length s \<and> ?n = length s"
    then have "n + (length s - n) \<le> ?n \<and> length s \<le> n + (length s - n)" by auto
    with r show "n \<le> ?n \<and> (\<exists>k. n + k \<le> ?n \<and> length s \<le> n + k)" by metis
  qed
  finally show ?thesis by (simp add: takeWhile_length_all)
qed

lemma test_re_username:
  "test re_username s \<longleftrightarrow> 3 \<le> length s \<and> length s \<le> 20 \<and> list_all (in_class word_class) s"
  unfolding re_username_def seq.simps test_Bol
  by (rule between_Eol[OF single_Set]) simp

lemma run_Look_Cat:
  "rx_run (Cat (Look a) r) x = (if rx_run a x = [] then [] else rx_run r x)"
  by (cases x) simp

lemma look_star_dot:
  "rx_run (Cat (Star Dot) (Set cs)) (p, s) \<noteq> [] \<longleftrightarrow>
     (\<exists>k\<le>length (takeWhile (\<lambda>c. \<not> is_line_terminator c) s). k < length s \<and> in_class cs (s ! k))"
proof -
  have one: "set (rx_run (Set cs) (q, drop k s)) \<noteq> {} \<longleftrightarrow> k < length s \<and> in_class cs (s ! k)" for q k
  proof (cases "k < length s")
    case True
    then have "drop k s = s ! k # drop (Suc k) s" by (simp add: Cons_nth_drop_Suc)
    with True show ?thesis by simp
  next
    case False
    then show ?thesis by simp
  qed
  have "rx_run (Cat (Star Dot) (Set cs)) (p, s) \<noteq> [] \<longleftrightarrow>
      (\<exists>y\<in>set (rx_run (Star Dot) (p, s)). set (rx_run (Set cs) y) \<noteq> {})"
    unfolding run_nonempty set_run_Cat[of "Star Dot"] by auto
  also have "\<dots> \<longleftrightarrow> (\<exists>k\<le>length (takeWhile (\<lambda>c. \<not> is_line_terminator c) s).
      set (rx_run (Set cs) (p + k, drop k s)) \<noteq> {})"
    unfolding star_single[OF single_Dot] by blast
  finally show ?thesis unfolding one .
qed

lemma look_star_dot_line:
  assumes "list_all (\<lambda>c. \<not> is_line_terminator c) s"
  shows "rx_run (Cat (Star Dot) (Set cs)) (p, s) \<noteq> [] \<longleftrightarrow> list_ex (in_class cs) s"
proof -
  have "length (takeWhile (\<lambda>c. \<not> is_line_terminator c) s) = length s"
    using assms by (simp add: takeWhile_length_all)
  then show ?thesis
    unfolding look_star_dot list_ex_length by (metis less_imp_le_nat)
qed

lemma in_strong_class: "in_class strong_class c \<longleftrightarrow>
  (65 \<le> c \<and> c \<le> 90) \<or> (97 \<le> c \<and> c \<le> 122) \<or> (48 \<le> c \<and> c \<le> 57)
  \<or> c \<in> {33, 64, 35, 36, 37, 94, 38, 42, 40, 41, 95, 43, 45, 61, 123, 125, 91, 93, 58, 59,
      34, 39, 60, 62, 63, 44, 46, 47}"
  by (simp add: in_class_def strong_class_def)

lemma strong_not_line_terminator: "in_class strong_class c \<Longrightarrow> \<not> is_line_terminator c"
  by (simp add: in_strong_class is_line_terminator_def) (elim disjE; simp)

lemma strong_class_line:
  "list_all (in_class strong_class) s \<Longrightarrow> list_all (\<lambda>c. \<not> is_line_terminator c) s"
  by (induction s) (simp_all add: strong_not_line_terminator)

lemma test_re_strong_run:
  "test re_strong s \<longleftrightarrow>
     rx_run (Cat (Star Dot) (Set letter_class)) (0, s) \<noteq> []
     \<and> rx_run (Cat (Star Dot) (Set [Digit])) (0, s) \<noteq> []
     \<and> rx_run (Cat (at_least 6 (Set strong_class)) (Cat Eol Eps)) (0, s) \<noteq> []"
  unfolding re_strong_def seq.simps test_Bol run_Look_Cat by auto

lemma test_re_strong:
  "test re_strong s \<longleftrightarrow>
     6 \<le> length s \<and> list_all (in_class strong_class) s
     \<and> list_ex (in_class letter_class) s \<and> list_ex (in_class [Digit]) s"
proof (cases "list_all (in_class strong_class) s")
  case False
  then show ?thesis
    unfolding test_re_strong_run at_least_Eol[OF single_Set] by blast
next
  case True
  note line = strong_class_line[OF True]
  show ?thesis
    unfolding test_re_strong_run at_least_Eol[OF single_Set] look_star_dot_line[OF line]
    by blast
qed

lemma user_ex: "\<not> test re_username (js ''ab'')" "test re_username (js ''abc_123'')"
  by (simp_all add: test_re_username js_def in_class_def word_class_def)

lemma in_letter_class: "in_class letter_class c \<longleftrightarrow> (65 \<le> c \<and> c \<le> 90) \<or> (97 \<le> c \<and> c \<le> 122)"
  by (simp add: in_class_def letter_class_def)

lemma in_digit_class: "in_class [Digit] c \<longleftrightarrow> 48 \<le> c \<and> c \<le> 57"
  by (simp add: in_class_def)

lemma strong_ex: "test re_strong (js ''abc123'')" "\<not> test re_strong (js ''abcdef'')"
   "\<not> test re_strong (js ''abc12~'')" "\<not> test re_strong (js ''abc 123'')"
  by (simp_all add: test_re_strong js_def in_strong_class in_letter_class in_digit_class)

lemmas star_eval =
  star_single_Nil[OF single_NSet] star_single_Cons[OF single_NSet]

lemma in_not_space_at: "in_class not_space_at c \<longleftrightarrow> is_space c \<or> c = 64"
  by (auto simp: in_class_def not_space_at_def)

lemma in_at: "in_class [Ch CHR ''@''] c \<longleftrightarrow> c = 64"
  by (simp add: in_class_def)

lemma in_dot: "in_class [Ch CHR ''.''] c \<longleftrightarrow> c = 46"
  by (simp add: in_class_def)

lemma rep_2: "rep 2 a = Cat a (Cat a Eps)"
  by (simp add: numeral_2_eq_2)

lemma email_ex1: "\<not> test re_email (js ''a@b.c'')"
  unfolding re_email_def seq.simps test_Bol plus_rx_def at_least_def
  by (simp add: js_def star_eval in_not_space_at in_at in_dot is_space_def rep_2)

lemma email_ex2: "test re_email (js ''a@b.co'')"
  unfolding re_email_def seq.simps test_Bol plus_rx_def at_least_def
  by (simp add: js_def star_eval in_not_space_at in_at in_dot is_space_def rep_2)

section \<open>Validation\<close>

lemma error_text_validateField:
  "error_text (validateField inp) = spec_first_failing (spec_rules (inp_name inp)) (trim (inp_value inp))"
  by (simp add: validateField_def spec_rules_def setError_def clearError_def Let_def)

lemma invalid_validateField:
  "invalid (validateField inp) \<longleftrightarrow>
     spec_first_failing (spec_rules (inp_name inp)) (trim (inp_value inp)) \<noteq> None"
  by (simp add: validateField_def spec_rules_def setError_def clearError_def invalid_def Let_def)

lemma trim_plain: "s \<noteq> [] \<Longrightarrow> \<not> is_space (hd s) \<Longrightarrow> \<not> is_space (last s) \<Longrightarrow> trim s = s"
proof -
  assume a: "s \<noteq> []" "\<not> is_space (hd s)" "\<not> is_space (last s)"
  then have 1: "dropWhile is_space s = s" by (cases s) auto
  from a have "rev s \<noteq> []" "\<not> is_space (hd (rev s))" by (simp_all add: hd_rev)
  then have 2: "dropWhile is_space (rev s) = rev s" by (cases "rev s") auto
  show ?thesis by (simp add: trim_def 1 2)
qed

text \<open>
  Claim C5. The validator yields the verdict of the first failing rule in the fixed
  priority order, empty before format, on the trimmed value; and on the listed
  inputs: user name \<open>""\<close> is invalid (required), \<open>"ab"\<close> is invalid, \<open>"abc_123"\<close> is
  valid, email \<open>"a@b.c"\<close> is invalid, \<open>"a@b.co"\<close> is valid, password \<open>"abc123"\<close> is
  valid and \<open>"abcdef"\<close> is invalid.
\<close>

theorem validateField_first_failing_rule:
  "error_text (validateField inp) = spec_first_failing (spec_rules (inp_name inp)) (trim (inp_value inp))
   \<and> invalid (validateField inp)
       = (spec_first_failing (spec_rules (inp_name inp)) (trim (inp_value inp)) \<noteq> None)
   \<and> invalid (validateField (field ''username'' ''''))
   \<and> error_text (validateField (field ''username'' '''')) = Some EnterUsername
   \<and> invalid (validateField (field ''username'' ''ab''))
   \<and> error_text (validateField (field ''username'' ''ab'')) = Some UsernameFormat
   \<and> \<not> invalid (validateField (field ''username'' ''abc_123''))
   \<and> invalid (validateField (field ''email'' ''a@b.c''))
   \<and> error_text (validateField (field ''email'' ''a@b.c'')) = Some EmailFormat
   \<and> \<not> invalid (validateField (field ''email'' ''a@b.co''))
   \<and> \<not> invalid (validateField (field ''password'' ''abc123''))
   \<and> invalid (validateField (field ''password'' ''abcdef''))
   \<and> error_text (validateField (field ''password'' ''abcdef'')) = Some PasswordFormat"
proof -
  have t0: "trim (js '''') = []" by (simp add: trim_def js_def)
  have t1: "trim (js ''ab'') = js ''ab''" by (simp add: trim_plain js_def is_space_def)
  have t2: "trim (js ''abc_123'') = js ''abc_123''" by (simp add: trim_plain js_def is_space_def)
  have t3: "trim (js ''a@b.c'') = js ''a@b.c''" by (simp add: trim_plain js_def is_space_def)
  have t4: "trim (js ''a@b.co'') = js ''a@b.co''" by (simp add: trim_plain js_def is_space_def)
  have t5: "trim (js ''abc123'') = js ''abc123''" by (simp add: trim_plain js_def is_space_def)
  have t6: "trim (js ''abcdef'') = js ''abcdef''" by (simp add: trim_plain js_def is_space_def)
  have n: "js ''ab'' \<noteq> []" "js ''abc_123'' \<noteq> []" "js ''a@b.c'' \<noteq> []" "js ''a@b.co'' \<noteq> []"
    "js ''abc123'' \<noteq> []" "js ''abcdef'' \<noteq> []"
    by (simp_all add: js_def)
  show ?thesis
    by (simp add: error_text_validateField invalid_validateField spec_rules_def field_def
        t0 t1 t2 t3 t4 t5 t6 n user_ex email_ex1 email_ex2 strong_ex)
qed

text \<open>
  Claim C6, as amended. A password is valid exactly when its trimmed value has at
  least six characters, all of them letters, digits or punctuation of the class of
  \<open>re.strong\<close>, among them a letter and a digit. A value with any other character
  (a space inside it, a tilde) is invalid, whatever else it holds.
\<close>

theorem password_valid_iff:
  "inp_name inp = ''password'' \<Longrightarrow>
     \<not> invalid (validateField inp) \<longleftrightarrow>
       6 \<le> length (trim (inp_value inp))
       \<and> list_all (in_class strong_class) (trim (inp_value inp))
       \<and> list_ex (in_class letter_class) (trim (inp_value inp))
       \<and> list_ex (in_class [Digit]) (trim (inp_value inp))"
  by (auto simp: invalid_validateField spec_rules_def test_re_strong)

theorem password_valid_iff_witness:
  "inp_name (field ''password'' ''abc123'') = ''password''
   \<and> \<not> invalid (validateField (field ''password'' ''abc123''))"
proof -
  have n: "inp_name (field ''password'' ''abc123'') = ''password''" by (simp add: field_def)
  have t: "trim (inp_value (field ''password'' ''abc123'')) = js ''abc123''"
    by (simp add: field_def trim_plain js_def is_space_def)
  show ?thesis
    using n password_valid_iff[OF n]
    by (simp add: t js_def in_strong_class in_letter_class in_digit_class)
qed

text \<open>
  Two passwords of seven and six characters, each with a letter and a digit, that the
  validator rejects: one holds a space, the other a tilde.
\<close>

theorem password_other_characters_rejected:
  "6 \<le> length (js ''abc 123'') \<and> list_ex (in_class letter_class) (js ''abc 123'')
   \<and> list_ex (in_class [Digit]) (js ''abc 123'')
   \<and> invalid (validateField (field ''password'' ''abc 123''))
   \<and> 6 \<le> length (js ''abc12~'') \<and> list_ex (in_class letter_class) (js ''abc12~'')
   \<and> list_ex (in_class [Digit]) (js ''abc12~'')
   \<and> invalid (validateField (field ''password'' ''abc12~''))"
proof -
  have t1: "trim (js ''abc 123'') = js ''abc 123''" by (simp add: trim_plain js_def is_space_def)
  have t2: "trim (js ''abc12~'') = js ''abc12~''" by (simp add: trim_plain js_def is_space_def)
  have n: "js ''abc 123'' \<noteq> []" "js ''abc12~'' \<noteq> []" by (simp_all add: js_def)
  have l: "6 \<le> length (js ''abc 123'')" "list_ex (in_class letter_class) (js ''abc 123'')"
    "list_ex (in_class [Digit]) (js ''abc 123'')"
    "6 \<le> length (js ''abc12~'')" "list_ex (in_class letter_class) (js ''abc12~'')"
    "list_ex (in_class [Digit]) (js ''abc12~'')"
    by (simp_all add: js_def in_letter_class in_digit_class)
  show ?thesis
    by (simp add: l invalid_validateField spec_rules_def field_def t1 t2 n strong_ex)
qed

section \<open>Close requests that are ignored\<close>

lemma foldl_invariant:
  "(\<And>s x. x \<in> set xs \<Longrightarrow> P s \<Longrightarrow> P (f s x)) \<Longrightarrow> P s0 \<Longrightarrow> P (foldl f s0 xs)"
  by (induction xs arbitrary: s0) auto

lemma frame_refl: "frame s s"
  by (simp add: frame_def)

lemma frame_trap_handler: "frame s s' \<Longrightarrow> frame s (fst (trap_handler t k sh s'))"
  by (auto simp: frame_def trap_handler_def throw_def focus_def split: option.splits)

lemma frame_dispatch_keydown: "frame s (dispatch_keydown m k sh s)"
  unfolding dispatch_keydown_def
  by (rule foldl_invariant) (auto simp: frame_refl frame_trap_handler)





section \<open>The focusable elements\<close>

lemma getFocusables_subset: "set (getFocusables root) \<subseteq> set root"
  by (auto simp: getFocusables_def)

lemma first_last_focusable:
  assumes "trap_prop (modal_el (open_continuation m s) m) = Some t"
  shows "(\<forall>f. trap_first t = Some f \<longrightarrow> f \<in> set (getFocusables (descendants (modal_el s m))))
    \<and> (\<forall>l. trap_last t = Some l \<longrightarrow> l \<in> set (getFocusables (descendants (modal_el s m))))"
proof -
  let ?fs = "getFocusables (descendants (modal_el s m))"
  have t: "t = Trap (next_closure s) (case ?fs of [] \<Rightarrow> None | x # _ \<Rightarrow> Some x)
      (if ?fs = [] then None else Some (last ?fs))"
    using assms
    by (simp add: open_continuation_def Let_def upd_def focus_def split: list.splits if_splits)
  show ?thesis
    unfolding t by (cases ?fs) auto
qed

text \<open>
  Claim C10. An element whose \<^verbatim>\<open>aria-hidden\<close> attribute has a non-empty value, the
  value \<^verbatim>\<open>"false"\<close> included, is never in the result of \<open>getFocusables\<close>; so it is
  neither the first nor the last element a trap cycles between, and the first
  element is the one that gets the initial focus.
\<close>

theorem aria_hidden_excluded:
  "getAttribute el ''aria-hidden'' = Some v \<Longrightarrow> v \<noteq> [] \<Longrightarrow>
     el \<notin> set (getFocusables root)
     \<and> (\<forall>t. trap_prop (modal_el (open_continuation m s) m) = Some t \<longrightarrow>
           trap_first t \<noteq> Some el \<and> trap_last t \<noteq> Some el)"
proof -
  assume a: "getAttribute el ''aria-hidden'' = Some v" "v \<noteq> []"
  have no: "el \<notin> set (getFocusables r)" for r
    using a by (simp add: getFocusables_def truthy_def)
  show ?thesis
    using no first_last_focusable[of m s] by blast
qed

theorem aria_hidden_excluded_witness:
  "getAttribute \<lparr>el_id = 5, tag = ''button'', attrs = [(''aria-hidden'', ''false'')]\<rparr> ''aria-hidden''
     = Some ''false''
   \<and> ''false'' \<noteq> []
   \<and> getFocusables [\<lparr>el_id = 5, tag = ''button'', attrs = [(''aria-hidden'', ''false'')]\<rparr>] = []
   \<and> getFocusables [\<lparr>el_id = 5, tag = ''button'', attrs = [(''aria-hidden'', [])]\<rparr>]
     = [\<lparr>el_id = 5, tag = ''button'', attrs = [(''aria-hidden'', [])]\<rparr>]"
proof -
  let ?el = "\<lparr>el_id = 5, tag = ''button'', attrs = [(''aria-hidden'', ''false'')]\<rparr>"
  have a: "getAttribute ?el ''aria-hidden'' = Some ''false''" by (simp add: getAttribute_def)
  have b: "''false'' \<noteq> []" by simp
  have "?el \<notin> set (getFocusables [?el])"
    using aria_hidden_excluded[OF a b, of "[?el]"] by blast
  moreover have "set (getFocusables [?el]) \<subseteq> {?el}"
    using getFocusables_subset[of "[?el]"] by simp
  ultimately have c: "getFocusables [?el] = []"
    by (cases "getFocusables [?el]") auto
  have d: "getFocusables [\<lparr>el_id = 5, tag = ''button'', attrs = [(''aria-hidden'', [])]\<rparr>]
     = [\<lparr>el_id = 5, tag = ''button'', attrs = [(''aria-hidden'', [])]\<rparr>]"
    by (simp add: getFocusables_def matches_selector_def hasAttribute_def getAttribute_def truthy_def)
  show ?thesis using a b c d by simp
qed

section \<open>A dialog without focusable elements\<close>

lemma same_node_undefined: "same_node a None = False"
  by (simp add: same_node_def split: option.splits)

lemma trap_handler_no_focusables:
  "trap_first t = None \<Longrightarrow> trap_last t = None \<Longrightarrow> trap_handler t k sh s = (s, False)"
  by (simp add: trap_handler_def same_node_undefined)

lemma dispatch_keydown_no_focusables:
  assumes "list_all (\<lambda>t. trap_first t = None \<and> trap_last t = None) (keydown (modal_el s m))"
  shows "dispatch_keydown m k sh s = s"
proof -
  have "list_all (\<lambda>t. trap_first t = None \<and> trap_last t = None) ts \<Longrightarrow>
    foldl (\<lambda>s' t. if t \<in> set (keydown (modal_el s' m)) then fst (trap_handler t k sh s') else s') s ts = s"
    for ts
    by (induction ts) (simp_all add: trap_handler_no_focusables)
  from this[OF assms] show ?thesis by (simp add: dispatch_keydown_def)
qed

lemma run_Nil: "run [] s = s"
  by (simp add: run_def)

lemma run_Cons: "run (e # evs) s = run evs (step e s)"
  by (simp add: run_def)

lemma run_fixed: "(\<And>e. e \<in> set evs \<Longrightarrow> step e s = s) \<Longrightarrow> run evs s = s"
  by (induction evs) (simp_all add: run_Nil run_Cons)

lemma dispatch_single:
  "animationend (modal_el s m) = [l] \<Longrightarrow> dispatch_animationend m at_modal s = onEnd m l at_modal s"
  by (simp add: dispatch_animationend_def)

text \<open>
  Claim C8. For a dialog without focusable descendants, the end of the open animation
  installs the trap without an exception and without moving the focus; after it, any
  sequence of Tab presses inside the dialog, with or without shift, leaves the whole
  state as it is: no exception, no change of focus, no call of
  \<^verbatim>\<open>preventDefault\<close>. (The handlers already on the dialog, if any, are supposed to
  be of the same kind.)
\<close>

theorem no_focusables_harmless:
  "animationend (modal_el s m) = [OnEndOpen i] \<Longrightarrow>
   getFocusables (descendants (modal_el s m)) = [] \<Longrightarrow>
   list_all (\<lambda>t. trap_first t = None \<and> trap_last t = None) (keydown (modal_el s m)) \<Longrightarrow>
     uncaught (step (AnimationEnd m True) s) = uncaught s
     \<and> activeElement (step (AnimationEnd m True) s) = activeElement s
     \<and> trap_prop (modal_el (step (AnimationEnd m True) s) m) = Some (Trap (next_closure s) None None)
     \<and> Trap (next_closure s) None None \<in> set (keydown (modal_el (step (AnimationEnd m True) s) m))
     \<and> trap_handler (Trap (next_closure s) None None) Tab shiftKey s' = (s', False)
     \<and> run (map (\<lambda>sh. KeyDown Tab sh (Some m)) presses) (step (AnimationEnd m True) s)
         = step (AnimationEnd m True) s"
proof -
  assume op: "animationend (modal_el s m) = [OnEndOpen i]"
    and fs: "getFocusables (descendants (modal_el s m)) = []"
    and old: "list_all (\<lambda>t. trap_first t = None \<and> trap_last t = None) (keydown (modal_el s m))"
  define s1 where "s1 = step (AnimationEnd m True) s"
  have s1: "s1 = onEnd m (OnEndOpen i) True s"
    by (simp add: s1_def dispatch_single[OF op])
  let ?t = "Trap (next_closure s) None None"
  have u: "uncaught s1 = uncaught s" and a: "activeElement s1 = activeElement s"
    and p: "trap_prop (modal_el s1 m) = Some ?t"
    and k: "keydown (modal_el s1 m) = addEventListener ?t (keydown (modal_el s m))"
    using fs by (simp_all add: s1 open_continuation_def Let_def upd_def)
  have mem: "?t \<in> set (keydown (modal_el s1 m))"
    by (simp add: k addEventListener_def)
  have h: "trap_handler ?t Tab shiftKey s' = (s', False)"
    by (simp add: trap_handler_no_focusables)
  have all: "list_all (\<lambda>t. trap_first t = None \<and> trap_last t = None) (keydown (modal_el s1 m))"
    using old by (simp add: k addEventListener_def)
  have "step e s1 = s1" if "e \<in> set (map (\<lambda>sh. KeyDown Tab sh (Some m)) presses)" for e
    using that by (auto simp: dispatch_keydown_no_focusables[OF all])
  then have r: "run (map (\<lambda>sh. KeyDown Tab sh (Some m)) presses) s1 = s1"
    by (rule run_fixed)
  show ?thesis using u a p mem h r unfolding s1_def by blast
qed

lemma register_opening:
  "animationend (modal_el (openModal ''register'' (page [] login_form)) RegisterWindow) = [OnEndOpen 0]"
  "getFocusables (descendants (modal_el (openModal ''register'' (page [] login_form)) RegisterWindow)) = []"
  "keydown (modal_el (openModal ''register'' (page [] login_form)) RegisterWindow) = []"
  "uncaught (openModal ''register'' (page [] login_form)) = []"
  by (simp_all add: openModal_def modals_def page_def animateOpen_def upd_def closed_el_def
      addEventListener_def getFocusables_def)

theorem no_focusables_harmless_witness:
  "animationend (modal_el (openModal ''register'' (page [] login_form)) RegisterWindow) = [OnEndOpen 0]
   \<and> getFocusables (descendants (modal_el (openModal ''register'' (page [] login_form)) RegisterWindow)) = []
   \<and> list_all (\<lambda>t. trap_first t = None \<and> trap_last t = None)
        (keydown (modal_el (openModal ''register'' (page [] login_form)) RegisterWindow))
   \<and> uncaught (step (AnimationEnd RegisterWindow True) (openModal ''register'' (page [] login_form))) = []
   \<and> run [KeyDown Tab False (Some RegisterWindow), KeyDown Tab True (Some RegisterWindow)]
        (step (AnimationEnd RegisterWindow True) (openModal ''register'' (page [] login_form)))
       = step (AnimationEnd RegisterWindow True) (openModal ''register'' (page [] login_form))"
proof -
  let ?s = "openModal ''register'' (page [] login_form)"
  have c: "list_all (\<lambda>t. trap_first t = None \<and> trap_last t = None) (keydown (modal_el ?s RegisterWindow))"
    by (simp add: register_opening)
  from no_focusables_harmless[OF register_opening(1) register_opening(2) c, of _ _ "[False, True]"]
  show ?thesis
    using c by (simp add: register_opening del: step.simps)
qed

section \<open>The state after each function\<close>

lemma open_continuation_fields:
  "overflow (open_continuation m s) = ''hidden''"
  "header_aria_hidden (open_continuation m s) =
     (if header_present s then Some ''true'' else header_aria_hidden s)"
  "activeModal (open_continuation m s) = activeModal s"
  "header_present (open_continuation m s) = header_present s"
  "modal_present (open_continuation m s) = modal_present s"
  "uncaught (open_continuation m s) = uncaught s"
  "next_closure (open_continuation m s) = Suc (next_closure s)"
  "modal_el (open_continuation m s) =
     (modal_el s)(m := (modal_el s m)\<lparr>trap_prop := Some (made_trap m s),
        keydown := addEventListener (made_trap m s) (keydown (modal_el s m))\<rparr>)"
  by (simp_all add: open_continuation_def made_trap_def Let_def upd_def focus_def split: list.splits)

lemma close_continuation_fields:
  "overflow (close_continuation s) = []"
  "header_aria_hidden (close_continuation s) = (if header_present s then None else header_aria_hidden s)"
  "activeModal (close_continuation s) = None"
  "header_present (close_continuation s) = header_present s"
  "modal_present (close_continuation s) = modal_present s"
  "uncaught (close_continuation s) = uncaught s"
  "next_closure (close_continuation s) = next_closure s"
  "modal_el (close_continuation s) = modal_el s"
  "activeElement (close_continuation s) = activeElement s"
  by (simp_all add: close_continuation_def Let_def)

lemma upd_fields:
  "overflow (upd m f s) = overflow s"
  "header_aria_hidden (upd m f s) = header_aria_hidden s"
  "activeModal (upd m f s) = activeModal s"
  "header_present (upd m f s) = header_present s"
  "modal_present (upd m f s) = modal_present s"
  "uncaught (upd m f s) = uncaught s"
  "next_closure (upd m f s) = next_closure s"
  "activeElement (upd m f s) = activeElement s"
  "modal_el (upd m f s) = (modal_el s)(m := f (modal_el s m))"
  by (simp_all add: upd_def)

lemma made_trap_upd:
  "descendants (f (modal_el s m)) = descendants (modal_el s m) \<Longrightarrow>
     made_trap m (upd m f s) = made_trap m s"
  by (simp add: made_trap_def upd_fields)

lemma onEnd_open_fields:
  "overflow (onEnd m (OnEndOpen i) True s) = ''hidden''"
  "header_aria_hidden (onEnd m (OnEndOpen i) True s) =
     (if header_present s then Some ''true'' else header_aria_hidden s)"
  "activeModal (onEnd m (OnEndOpen i) True s) = activeModal s"
  "header_present (onEnd m (OnEndOpen i) True s) = header_present s"
  "modal_present (onEnd m (OnEndOpen i) True s) = modal_present s"
  "uncaught (onEnd m (OnEndOpen i) True s) = uncaught s"
  "next_closure (onEnd m (OnEndOpen i) True s) = Suc (next_closure s)"
  "modal_el (onEnd m (OnEndOpen i) True s) =
     (modal_el s)(m := (modal_el s m)\<lparr>is_opening := False,
        animationend := removeEventListener (OnEndOpen i) (animationend (modal_el s m)),
        trap_prop := Some (made_trap m s),
        keydown := addEventListener (made_trap m s) (keydown (modal_el s m))\<rparr>)"
  by (simp_all add: open_continuation_fields upd_fields made_trap_upd)

lemma onEnd_close_fields:
  "overflow (onEnd m (OnEndClose i) True s) = []"
  "header_aria_hidden (onEnd m (OnEndClose i) True s) =
     (if header_present s then None else header_aria_hidden s)"
  "activeModal (onEnd m (OnEndClose i) True s) = None"
  "header_present (onEnd m (OnEndClose i) True s) = header_present s"
  "modal_present (onEnd m (OnEndClose i) True s) = modal_present s"
  "uncaught (onEnd m (OnEndClose i) True s) = uncaught s"
  "next_closure (onEnd m (OnEndClose i) True s) = next_closure s"
  "activeElement (onEnd m (OnEndClose i) True s) = activeElement s"
  "modal_el (onEnd m (OnEndClose i) True s) =
     (modal_el s)(m := (modal_el s m)\<lparr>is_closing := False, hidden := True,
        animationend := removeEventListener (OnEndClose i) (animationend (modal_el s m))\<rparr>)"
  by (simp_all add: close_continuation_fields upd_fields)

lemma onEnd_elsewhere: "onEnd m l False s = s"
  by (cases l) simp_all

lemma closeModal_fields:
  assumes "activeModal s = Some (Container m)"
  shows "overflow (closeModal s) = overflow s"
    "header_aria_hidden (closeModal s) = header_aria_hidden s"
    "activeModal (closeModal s) = Some (Container m)"
    "header_present (closeModal s) = header_present s"
    "modal_present (closeModal s) = modal_present s"
    "uncaught (closeModal s) = uncaught s"
    "activeElement (closeModal s) = activeElement s"
    "next_closure (closeModal s) = Suc (next_closure s)"
    "modal_el (closeModal s) =
       (modal_el s)(m := (modal_el s m)\<lparr>
          keydown := (case trap_prop (modal_el s m) of None \<Rightarrow> keydown (modal_el s m)
                      | Some t \<Rightarrow> removeEventListener t (keydown (modal_el s m))),
          is_opening := False, is_closing := True,
          animationend := addEventListener (OnEndClose (next_closure s)) (animationend (modal_el s m))\<rparr>)"
  using assms
  by (simp_all add: closeModal_def animateClose_def upd_def split: option.splits)

lemma openModal_fields:
  assumes "activeModal s = None" and "modals s k = Some (Container m)"
  shows "overflow (openModal k s) = overflow s"
    "header_aria_hidden (openModal k s) = header_aria_hidden s"
    "activeModal (openModal k s) = Some (Container m)"
    "header_present (openModal k s) = header_present s"
    "modal_present (openModal k s) = modal_present s"
    "uncaught (openModal k s) = uncaught s"
    "activeElement (openModal k s) = activeElement s"
    "next_closure (openModal k s) = Suc (next_closure s)"
    "modal_el (openModal k s) =
       (modal_el s)(m := (modal_el s m)\<lparr>hidden := False, is_closing := False, is_opening := True,
          animationend := addEventListener (OnEndOpen (next_closure s)) (animationend (modal_el s m))\<rparr>)"
  using assms
  by (simp_all add: openModal_def animateOpen_def upd_def)

section \<open>Closing while the dialog opens\<close>

declare onEnd.simps [simp del]

lemma dispatch_pair:
  "animationend (modal_el s m) = [l1, l2] \<Longrightarrow>
   dispatch_animationend m at_modal s =
     (if l2 \<in> set (animationend (modal_el (onEnd m l1 at_modal s) m))
      then onEnd m l2 at_modal (onEnd m l1 at_modal s) else onEnd m l1 at_modal s)"
  by (simp add: dispatch_animationend_def)

text \<open>
  Claim C9. A close request while the dialog is opening is accepted: the closing
  class is set and the second \<open>onEnd\<close> is registered at once. When the animation then
  ends, the continuation of \<open>openModal\<close> still locks the scroll, marks the header and
  installs the trap, on a dialog that is closing; after the continuation of
  \<open>closeModal\<close>, which the same event runs next, no dialog is active, the dialog is
  hidden, and the trap is still installed.
\<close>

theorem close_while_opening:
  "activeModal s = Some (Container m) \<Longrightarrow> animationend (modal_el s m) = [OnEndOpen i] \<Longrightarrow>
     step ClickClose s = closeModal s
     \<and> is_closing (modal_el (closeModal s) m)
     \<and> animationend (modal_el (closeModal s) m) = [OnEndOpen i, OnEndClose (next_closure s)]
     \<and> overflow (onEnd m (OnEndOpen i) True (closeModal s)) = ''hidden''
     \<and> (if header_present s
         then header_aria_hidden (onEnd m (OnEndOpen i) True (closeModal s)) = Some ''true''
         else header_aria_hidden (onEnd m (OnEndOpen i) True (closeModal s)) = header_aria_hidden s)
     \<and> (case trap_prop (modal_el (onEnd m (OnEndOpen i) True (closeModal s)) m) of
           None \<Rightarrow> False
         | Some t \<Rightarrow> t \<in> set (keydown (modal_el (onEnd m (OnEndOpen i) True (closeModal s)) m)))
     \<and> is_closing (modal_el (onEnd m (OnEndOpen i) True (closeModal s)) m)
     \<and> step (AnimationEnd m True) (closeModal s)
         = onEnd m (OnEndClose (next_closure s)) True (onEnd m (OnEndOpen i) True (closeModal s))
     \<and> activeModal (step (AnimationEnd m True) (closeModal s)) = None
     \<and> hidden (modal_el (step (AnimationEnd m True) (closeModal s)) m)
     \<and> (case trap_prop (modal_el (step (AnimationEnd m True) (closeModal s)) m) of
           None \<Rightarrow> False
         | Some t \<Rightarrow> t \<in> set (keydown (modal_el (step (AnimationEnd m True) (closeModal s)) m)))"
proof -
  assume act: "activeModal s = Some (Container m)" and op: "animationend (modal_el s m) = [OnEndOpen i]"
  note cf = closeModal_fields[OF act]
  define c where "c = closeModal s"
  define s1 where "s1 = onEnd m (OnEndOpen i) True c"
  define s2 where "s2 = onEnd m (OnEndClose (next_closure s)) True s1"
  have c1: "is_closing (modal_el c m)"
    and c2: "animationend (modal_el c m) = [OnEndOpen i, OnEndClose (next_closure s)]"
    using op by (simp_all add: c_def cf addEventListener_def)
  have o1: "overflow s1 = ''hidden''"
    and o2: "if header_present s then header_aria_hidden s1 = Some ''true''
             else header_aria_hidden s1 = header_aria_hidden s"
    and o3: "case trap_prop (modal_el s1 m) of None \<Rightarrow> False
             | Some t \<Rightarrow> t \<in> set (keydown (modal_el s1 m))"
    and o4: "is_closing (modal_el s1 m)"
    and o5: "animationend (modal_el s1 m) = [OnEndClose (next_closure s)]"
    using c1 c2
    by (simp_all add: s1_def onEnd_open_fields addEventListener_def removeEventListener_def)
       (simp_all add: c_def cf)
  have o6: "keydown (modal_el s2 m) = keydown (modal_el s1 m)"
      "trap_prop (modal_el s2 m) = trap_prop (modal_el s1 m)"
    and o7: "activeModal s2 = None" "hidden (modal_el s2 m)"
    by (simp_all add: s2_def onEnd_close_fields)
  have st: "step (AnimationEnd m True) c = s2"
    unfolding step.simps dispatch_pair[OF c2] s1_def[symmetric] o5 s2_def by simp
  have o8: "case trap_prop (modal_el s2 m) of None \<Rightarrow> False
             | Some t \<Rightarrow> t \<in> set (keydown (modal_el s2 m))"
    using o3 by (simp only: o6)
  have "step ClickClose s = c" by (simp add: c_def)
  with c1 c2 o1 o2 o3 o4 o7 o8 st have
    "step ClickClose s = c \<and> is_closing (modal_el c m)
     \<and> animationend (modal_el c m) = [OnEndOpen i, OnEndClose (next_closure s)]
     \<and> overflow s1 = ''hidden''
     \<and> (if header_present s then header_aria_hidden s1 = Some ''true''
         else header_aria_hidden s1 = header_aria_hidden s)
     \<and> (case trap_prop (modal_el s1 m) of None \<Rightarrow> False
         | Some t \<Rightarrow> t \<in> set (keydown (modal_el s1 m)))
     \<and> is_closing (modal_el s1 m)
     \<and> step (AnimationEnd m True) c = s2
     \<and> activeModal (step (AnimationEnd m True) c) = None
     \<and> hidden (modal_el (step (AnimationEnd m True) c) m)
     \<and> (case trap_prop (modal_el (step (AnimationEnd m True) c) m) of None \<Rightarrow> False
         | Some t \<Rightarrow> t \<in> set (keydown (modal_el (step (AnimationEnd m True) c) m)))"
    by (simp only: simp_thms)
  then show ?thesis
    unfolding s2_def s1_def c_def .
qed

section \<open>Completion of the animations\<close>

lemma dispatch_elsewhere: "dispatch_animationend m False s = s"
proof -
  have "foldl (\<lambda>s' l. if l \<in> set (animationend (modal_el s' m)) then onEnd m l False s' else s') s ls = s"
    for ls
    by (induction ls) (simp_all add: onEnd_elsewhere)
  then show ?thesis by (simp add: dispatch_animationend_def)
qed

lemma onEnd_animationend:
  "animationend (modal_el (onEnd m l True s) m') =
     (if m' = m then removeEventListener l (animationend (modal_el s m))
      else animationend (modal_el s m'))"
  by (cases l) (simp_all add: onEnd_open_fields onEnd_close_fields)

lemma filter_absent: "l \<notin> set xs \<Longrightarrow> filter (\<lambda>x. x \<noteq> l) xs = xs"
  by (induction xs) auto

lemma dispatch_settles_all: "animationend (modal_el (dispatch_animationend m True s) m) = []"
proof -
  have "animationend (modal_el
      (foldl (\<lambda>s' l. if l \<in> set (animationend (modal_el s' m)) then onEnd m l True s' else s') s ls) m)
    = filter (\<lambda>x. x \<notin> set ls) (animationend (modal_el s m))" for ls
  proof (induction ls arbitrary: s)
    case Nil
    then show ?case by simp
  next
    case (Cons l ls)
    have "animationend (modal_el (if l \<in> set (animationend (modal_el s m)) then onEnd m l True s else s) m)
        = filter (\<lambda>x. x \<noteq> l) (animationend (modal_el s m))"
      by (simp add: onEnd_animationend removeEventListener_def filter_absent)
    then show ?case
      by (simp add: Cons.IH conj_commute)
  qed
  from this[of "animationend (modal_el s m)"] show ?thesis
    by (simp add: dispatch_animationend_def)
qed

lemma dispatch_other_modal:
  "m' \<noteq> m \<Longrightarrow> animationend (modal_el (dispatch_animationend m' True s) m) = animationend (modal_el s m)"
  unfolding dispatch_animationend_def
  by (rule foldl_invariant) (simp_all add: onEnd_animationend)

lemma closeModal_keeps_listeners:
  "set (animationend (modal_el s m)) \<subseteq> set (animationend (modal_el (closeModal s) m))"
  by (auto simp: closeModal_def animateClose_def upd_def addEventListener_def throw_def
      split: option.splits target.splits)

lemma openModal_keeps_listeners:
  "set (animationend (modal_el s m)) \<subseteq> set (animationend (modal_el (openModal k s) m))"
  by (auto simp: openModal_def animateOpen_def upd_def addEventListener_def throw_def
      split: option.splits target.splits)

lemma dispatch_keydown_modal_el: "modal_el (dispatch_keydown m k sh s) = modal_el s"
  using frame_dispatch_keydown[of s m k sh] by (simp add: frame_def)

lemma step_keeps_listeners:
  assumes "e \<noteq> AnimationEnd m True" and "l \<in> set (animationend (modal_el s m))"
  shows "l \<in> set (animationend (modal_el (step e s) m))"
proof (cases e)
  case (ClickOpen k)
  with assms(2) openModal_keeps_listeners[of s m k] show ?thesis by auto
next
  case ClickClose
  with assms(2) closeModal_keeps_listeners[of s m] show ?thesis by auto
next
  case (MouseDown m' b)
  with assms(2) closeModal_keeps_listeners[of s m] show ?thesis by auto
next
  case (KeyDown k sh inside)
  define s1 where "s1 = (case inside of None \<Rightarrow> s | Some m' \<Rightarrow> dispatch_keydown m' k sh s)"
  have "modal_el s1 = modal_el s"
    by (simp add: s1_def dispatch_keydown_modal_el split: option.splits)
  with assms(2) have "l \<in> set (animationend (modal_el s1 m))" by simp
  with closeModal_keeps_listeners[of s1 m]
  have "l \<in> set (animationend (modal_el (if k = Escape then closeModal s1 else s1) m))" by auto
  then show ?thesis unfolding KeyDown step.simps Let_def s1_def[symmetric] .
next
  case (AnimationEnd m' b)
  show ?thesis
  proof (cases b)
    case False
    with assms(2) AnimationEnd show ?thesis by (simp add: dispatch_elsewhere)
  next
    case True
    with assms(1) AnimationEnd have "m' \<noteq> m" by auto
    with assms(2) AnimationEnd True show ?thesis by (simp add: dispatch_other_modal)
  qed
next
  case Other
  with assms(2) show ?thesis by simp
qed

lemma run_keeps_listeners:
  "\<forall>e\<in>set evs. e \<noteq> AnimationEnd m True \<Longrightarrow> l \<in> set (animationend (modal_el s m)) \<Longrightarrow>
     l \<in> set (animationend (modal_el (run evs s) m))"
proof (induction evs arbitrary: s)
  case Nil
  then show ?case by (simp add: run_Nil)
next
  case (Cons e evs)
  from Cons.prems have "l \<in> set (animationend (modal_el (step e s) m))"
    by (simp add: step_keeps_listeners)
  with Cons show ?case by (simp add: run_Cons)
qed

text \<open>
  Claim C3, as amended. A pending completion stays pending through every sequence of
  events that holds no \<^verbatim>\<open>animationend\<close> targeted at the container itself, and the
  first such event settles every completion pending on that container. There is no
  timer behind the promise.
\<close>

theorem settles_only_on_animationend:
  "(list_all (\<lambda>e. e \<noteq> AnimationEnd m True) evs \<and> l \<in> set (animationend (modal_el s m))
      \<longrightarrow> l \<in> set (animationend (modal_el (run evs s) m)))
   \<and> animationend (modal_el (step (AnimationEnd m True) s) m) = []"
  using run_keeps_listeners[of evs m l s]
  by (simp add: dispatch_settles_all list_all_iff)

text \<open>
  The claim as stated fails: in an environment that never delivers the event, the
  promise \<open>openModal\<close> awaits is pending after any number of events.
\<close>

theorem no_fallback_timeout:
  "\<not> (\<forall>env. (\<forall>n. env n \<noteq> AnimationEnd LoginWindow True) \<longrightarrow>
        (\<exists>n. animationend (modal_el (run (map env [0..<n]) (openModal ''login'' (page [] login_form)))
                LoginWindow) = []))"
proof
  assume a: "\<forall>env. (\<forall>n. env n \<noteq> AnimationEnd LoginWindow True) \<longrightarrow>
        (\<exists>n. animationend (modal_el (run (map env [0..<n]) (openModal ''login'' (page [] login_form)))
                LoginWindow) = [])"
  let ?s = "openModal ''login'' (page [] login_form)"
  have p: "OnEndOpen 0 \<in> set (animationend (modal_el ?s LoginWindow))"
    by (simp add: openModal_def modals_def page_def animateOpen_def upd_def closed_el_def
        addEventListener_def)
  from a have "\<exists>n. animationend (modal_el (run (map (\<lambda>_. Other) [0..<n]) ?s) LoginWindow) = []"
    by simp
  then obtain n where n: "animationend (modal_el (run (map (\<lambda>_. Other) [0..<n]) ?s) LoginWindow) = []" ..
  have "OnEndOpen 0 \<in> set (animationend (modal_el (run (map (\<lambda>_. Other) [0..<n]) ?s) LoginWindow))"
    by (rule run_keeps_listeners[OF _ p]) simp
  with n show False by simp
qed

section \<open>Order of the side effects\<close>

lemma closeModal_frame:
  "overflow (closeModal s) = overflow s \<and> header_aria_hidden (closeModal s) = header_aria_hidden s
   \<and> (activeModal s \<noteq> None \<longrightarrow> activeModal (closeModal s) = activeModal s)"
  by (auto simp: closeModal_def animateClose_def upd_def throw_def
      split: option.splits target.splits)

lemma openModal_frame:
  "overflow (openModal k s) = overflow s \<and> header_aria_hidden (openModal k s) = header_aria_hidden s
   \<and> (activeModal s \<noteq> None \<longrightarrow> activeModal (openModal k s) = activeModal s)"
  by (auto simp: openModal_def animateOpen_def upd_def throw_def
      split: option.splits target.splits)

lemma dispatch_keydown_frame:
  "overflow (dispatch_keydown m k sh s) = overflow s"
  "header_aria_hidden (dispatch_keydown m k sh s) = header_aria_hidden s"
  "activeModal (dispatch_keydown m k sh s) = activeModal s"
  using frame_dispatch_keydown[of s m k sh] by (simp_all add: frame_def)

lemma step_frame:
  assumes "\<forall>m. e \<noteq> AnimationEnd m True"
  shows "overflow (step e s) = overflow s \<and> header_aria_hidden (step e s) = header_aria_hidden s
    \<and> (activeModal s \<noteq> None \<longrightarrow> activeModal (step e s) = activeModal s)"
proof (cases e)
  case (ClickOpen k)
  then show ?thesis using openModal_frame[of k s] by simp
next
  case ClickClose
  then show ?thesis using closeModal_frame[of s] by simp
next
  case (MouseDown m b)
  then show ?thesis using closeModal_frame[of s] by simp
next
  case (KeyDown k sh inside)
  define s1 where "s1 = (case inside of None \<Rightarrow> s | Some m' \<Rightarrow> dispatch_keydown m' k sh s)"
  have s1: "overflow s1 = overflow s" "header_aria_hidden s1 = header_aria_hidden s"
    "activeModal s1 = activeModal s"
    by (simp_all add: s1_def dispatch_keydown_frame split: option.splits)
  have "step e s = (if k = Escape then closeModal s1 else s1)"
    unfolding KeyDown step.simps Let_def s1_def[symmetric] ..
  then show ?thesis using closeModal_frame[of s1] s1 by simp
next
  case (AnimationEnd m b)
  with assms have "b = False" by auto
  with AnimationEnd show ?thesis by (simp add: dispatch_elsewhere)
next
  case Other
  then show ?thesis by simp
qed

lemma dispatch_without_open:
  assumes "\<forall>i. OnEndOpen i \<notin> set (animationend (modal_el s m))"
  shows "overflow (dispatch_animationend m True s) \<in> {overflow s, []}
    \<and> header_aria_hidden (dispatch_animationend m True s) \<in> {header_aria_hidden s, None}"
  unfolding dispatch_animationend_def
proof (rule foldl_invariant)
  fix s' :: state and l
  assume l: "l \<in> set (animationend (modal_el s m))"
    and p: "overflow s' \<in> {overflow s, []} \<and> header_aria_hidden s' \<in> {header_aria_hidden s, None}"
  have "\<exists>j. l = OnEndClose j"
  proof (cases l)
    case (OnEndOpen i)
    with l assms show ?thesis by auto
  next
    case (OnEndClose j)
    then show ?thesis by auto
  qed
  then obtain j where "l = OnEndClose j" ..
  with p show "overflow (if l \<in> set (animationend (modal_el s' m)) then onEnd m l True s' else s')
        \<in> {overflow s, []}
    \<and> header_aria_hidden (if l \<in> set (animationend (modal_el s' m)) then onEnd m l True s' else s')
        \<in> {header_aria_hidden s, None}"
    by (auto simp: onEnd_close_fields)
qed simp

lemma dispatch_without_close:
  assumes "\<forall>i. OnEndClose i \<notin> set (animationend (modal_el s m))"
  shows "activeModal (dispatch_animationend m True s) = activeModal s
    \<and> overflow (dispatch_animationend m True s) \<in> {overflow s, ''hidden''}
    \<and> header_aria_hidden (dispatch_animationend m True s) \<in> {header_aria_hidden s, Some ''true''}"
  unfolding dispatch_animationend_def
proof (rule foldl_invariant)
  fix s' :: state and l
  assume l: "l \<in> set (animationend (modal_el s m))"
    and p: "activeModal s' = activeModal s \<and> overflow s' \<in> {overflow s, ''hidden''}
      \<and> header_aria_hidden s' \<in> {header_aria_hidden s, Some ''true''}"
  have "\<exists>j. l = OnEndOpen j"
  proof (cases l)
    case (OnEndOpen j)
    then show ?thesis by auto
  next
    case (OnEndClose i)
    with l assms show ?thesis by auto
  qed
  then obtain j where "l = OnEndOpen j" ..
  with p show "activeModal (if l \<in> set (animationend (modal_el s' m)) then onEnd m l True s' else s')
        = activeModal s
    \<and> overflow (if l \<in> set (animationend (modal_el s' m)) then onEnd m l True s' else s')
        \<in> {overflow s, ''hidden''}
    \<and> header_aria_hidden (if l \<in> set (animationend (modal_el s' m)) then onEnd m l True s' else s')
        \<in> {header_aria_hidden s, Some ''true''}"
    by (auto simp: onEnd_open_fields)
qed simp

text \<open>
  Claim C2. An event other than an \<^verbatim>\<open>animationend\<close> on a container itself changes
  neither the scroll lock nor the header's marker and does not clear the active
  dialog. Such an event locks the scroll or sets the marker only if an open animation
  was pending on that container, and it unlocks, removes the marker or clears the
  active dialog only if a close animation was pending. When the open animation of a
  dialog resolves, lock and marker are set; when its close animation resolves, they
  are released and the active dialog is cleared.
\<close>

theorem effects_after_animation:
  "((\<forall>m. e \<noteq> AnimationEnd m True) \<longrightarrow>
      overflow (step e s) = overflow s \<and> header_aria_hidden (step e s) = header_aria_hidden s
      \<and> (activeModal s \<noteq> None \<longrightarrow> activeModal (step e s) = activeModal s))
   \<and> ((\<forall>i. OnEndOpen i \<notin> set (animationend (modal_el s m))) \<longrightarrow>
      (overflow (step (AnimationEnd m True) s) = ''hidden'' \<longrightarrow> overflow s = ''hidden'')
      \<and> (header_aria_hidden (step (AnimationEnd m True) s) = Some ''true''
           \<longrightarrow> header_aria_hidden s = Some ''true''))
   \<and> ((\<forall>i. OnEndClose i \<notin> set (animationend (modal_el s m))) \<longrightarrow>
      activeModal (step (AnimationEnd m True) s) = activeModal s
      \<and> (overflow s = ''hidden'' \<longrightarrow> overflow (step (AnimationEnd m True) s) = ''hidden'')
      \<and> (header_aria_hidden s = Some ''true''
           \<longrightarrow> header_aria_hidden (step (AnimationEnd m True) s) = Some ''true''))
   \<and> (animationend (modal_el s m) = [OnEndOpen i] \<longrightarrow>
      overflow (step (AnimationEnd m True) s) = ''hidden''
      \<and> (header_present s \<longrightarrow> header_aria_hidden (step (AnimationEnd m True) s) = Some ''true''))
   \<and> (animationend (modal_el s m) = [OnEndClose i] \<longrightarrow>
      overflow (step (AnimationEnd m True) s) = []
      \<and> activeModal (step (AnimationEnd m True) s) = None
      \<and> (header_present s \<longrightarrow> header_aria_hidden (step (AnimationEnd m True) s) = None))"
proof (intro conjI impI)
  assume "\<forall>m. e \<noteq> AnimationEnd m True"
  from step_frame[OF this, of s]
  show "overflow (step e s) = overflow s" "header_aria_hidden (step e s) = header_aria_hidden s"
    by simp_all
next
  assume "\<forall>m. e \<noteq> AnimationEnd m True" "activeModal s \<noteq> None"
  with step_frame[of e s] show "activeModal (step e s) = activeModal s" by simp
next
  assume a: "\<forall>i. OnEndOpen i \<notin> set (animationend (modal_el s m))"
  {
    assume "overflow (step (AnimationEnd m True) s) = ''hidden''"
    with dispatch_without_open[OF a] show "overflow s = ''hidden''" by auto
  }
  {
    assume "header_aria_hidden (step (AnimationEnd m True) s) = Some ''true''"
    with dispatch_without_open[OF a] show "header_aria_hidden s = Some ''true''" by auto
  }
next
  assume a: "\<forall>i. OnEndClose i \<notin> set (animationend (modal_el s m))"
  from dispatch_without_close[OF a]
  show "activeModal (step (AnimationEnd m True) s) = activeModal s" by simp
  {
    assume "overflow s = ''hidden''"
    with dispatch_without_close[OF a] show "overflow (step (AnimationEnd m True) s) = ''hidden''"
      by auto
  }
  {
    assume "header_aria_hidden s = Some ''true''"
    with dispatch_without_close[OF a]
    show "header_aria_hidden (step (AnimationEnd m True) s) = Some ''true''" by auto
  }
next
  assume a: "animationend (modal_el s m) = [OnEndOpen i]"
  show "overflow (step (AnimationEnd m True) s) = ''hidden''"
    by (simp add: dispatch_single[OF a] onEnd_open_fields)
  {
    assume "header_present s"
    then show "header_aria_hidden (step (AnimationEnd m True) s) = Some ''true''"
      by (simp add: dispatch_single[OF a] onEnd_open_fields)
  }
next
  assume a: "animationend (modal_el s m) = [OnEndClose i]"
  show "overflow (step (AnimationEnd m True) s) = []"
    "activeModal (step (AnimationEnd m True) s) = None"
    by (simp_all add: dispatch_single[OF a] onEnd_close_fields)
  {
    assume "header_present s"
    then show "header_aria_hidden (step (AnimationEnd m True) s) = None"
      by (simp add: dispatch_single[OF a] onEnd_close_fields)
  }
qed

section \<open>At most one active dialog\<close>

lemma one_active_iff:
  "one_active s \<longleftrightarrow>
     (\<forall>m. (activeModal s = Some (Container m) \<or> at_rest (modal_el s m))
         \<and> (open_pending (modal_el s m) \<or> \<not> is_opening (modal_el s m)))"
proof -
  have "(\<forall>m. P m) \<longleftrightarrow> P RegisterWindow \<and> P LoginWindow" for P
    by (metis modal.exhaust)
  then show ?thesis by (simp add: one_active_def)
qed

lemma open_pending_iff: "open_pending e \<longleftrightarrow> (\<exists>i. OnEndOpen i \<in> set (animationend e))"
proof
  assume "open_pending e"
  then obtain l where l: "l \<in> set (animationend e)" "is_open_listener l"
    by (auto simp: open_pending_def list_ex_iff)
  show "\<exists>i. OnEndOpen i \<in> set (animationend e)"
  proof (cases l)
    case (OnEndOpen i)
    with l show ?thesis by auto
  next
    case (OnEndClose i)
    with l show ?thesis by simp
  qed
next
  assume "\<exists>i. OnEndOpen i \<in> set (animationend e)"
  then obtain i where "OnEndOpen i \<in> set (animationend e)" ..
  moreover have "is_open_listener (OnEndOpen i)" by simp
  ultimately show "open_pending e"
    unfolding open_pending_def list_ex_iff by blast
qed

lemma one_active_page: "one_active (page reg login)"
  by (simp add: one_active_def page_def closed_el_def at_rest_def)

lemma one_active_throw: "one_active (throw err s) = one_active s"
  by (simp add: one_active_def throw_def)

lemma one_active_openModal: "one_active s \<Longrightarrow> one_active (openModal k s)"
proof (cases "activeModal s \<noteq> None \<or> modals s k = None")
  case True
  assume "one_active s"
  with True show ?thesis by (auto simp: openModal_def split: option.splits)
next
  case False
  assume inv: "one_active s"
  from False obtain t where t: "activeModal s = None" "modals s k = Some t" by auto
  from inv t(1) have rest: "at_rest (modal_el s m')"
    and op: "open_pending (modal_el s m') \<or> \<not> is_opening (modal_el s m')" for m'
    by (simp_all add: one_active_iff)
  show ?thesis
  proof (cases t)
    case (Container m)
    note f = openModal_fields[OF t(1) t(2)[unfolded Container]]
    show ?thesis
      unfolding one_active_iff
    proof
      fix m'
      show "(activeModal (openModal k s) = Some (Container m') \<or> at_rest (modal_el (openModal k s) m'))
          \<and> (open_pending (modal_el (openModal k s) m') \<or> \<not> is_opening (modal_el (openModal k s) m'))"
        using rest[of m'] op[of m']
        by (cases "m' = m") (auto simp: f open_pending_iff addEventListener_def)
    qed
  next
    case (Inherited n)
    have "openModal k s = throw TypeError (s\<lparr>activeModal := Some (Inherited n)\<rparr>)"
      using t by (simp add: openModal_def animateOpen_def Inherited)
    moreover have "one_active (s\<lparr>activeModal := Some (Inherited n)\<rparr>)"
      unfolding one_active_iff using rest op by simp
    ultimately show ?thesis by (simp add: one_active_throw)
  qed
qed

lemma one_active_closeModal: "one_active s \<Longrightarrow> one_active (closeModal s)"
proof (cases "activeModal s")
  case None
  assume "one_active s"
  with None show ?thesis by (simp add: closeModal_def)
next
  case (Some t)
  assume inv: "one_active s"
  show ?thesis
  proof (cases t)
    case (Inherited n)
    with Some inv show ?thesis by (simp add: closeModal_def one_active_throw)
  next
    case (Container m)
    note f = closeModal_fields[OF Some[unfolded Container]]
    show ?thesis
      unfolding one_active_iff
    proof
      fix m'
      from inv have r: "activeModal s = Some (Container m') \<or> at_rest (modal_el s m')"
        and o: "open_pending (modal_el s m') \<or> \<not> is_opening (modal_el s m')"
        by (simp_all add: one_active_iff)
      show "(activeModal (closeModal s) = Some (Container m') \<or> at_rest (modal_el (closeModal s) m'))
          \<and> (open_pending (modal_el (closeModal s) m') \<or> \<not> is_opening (modal_el (closeModal s) m'))"
        using r o Some Container by (cases "m' = m") (auto simp: f)
    qed
  qed
qed

lemma one_active_frame: "frame s s' \<Longrightarrow> one_active s \<Longrightarrow> one_active s'"
  by (simp add: frame_def one_active_def)

lemma dispatch_nothing_pending:
  "animationend (modal_el s m) = [] \<Longrightarrow> dispatch_animationend m at_modal s = s"
  by (simp add: dispatch_animationend_def)

lemma onEnd_modal_el_other: "m' \<noteq> m \<Longrightarrow> modal_el (onEnd m l True s) m' = modal_el s m'"
  by (cases l) (simp_all add: onEnd_open_fields onEnd_close_fields)

lemma dispatch_modal_el_other:
  "m' \<noteq> m \<Longrightarrow> modal_el (dispatch_animationend m True s) m' = modal_el s m'"
  unfolding dispatch_animationend_def
  by (rule foldl_invariant) (simp_all add: onEnd_modal_el_other)

lemma dispatch_closed:
  "activeModal (dispatch_animationend m True s) = activeModal s
   \<or> (activeModal (dispatch_animationend m True s) = None
       \<and> hidden (modal_el (dispatch_animationend m True s) m)
       \<and> \<not> is_closing (modal_el (dispatch_animationend m True s) m))"
  unfolding dispatch_animationend_def
proof (rule foldl_invariant)
  fix s' :: state and l
  assume p: "activeModal s' = activeModal s
    \<or> (activeModal s' = None \<and> hidden (modal_el s' m) \<and> \<not> is_closing (modal_el s' m))"
  let ?s = "if l \<in> set (animationend (modal_el s' m)) then onEnd m l True s' else s'"
  show "activeModal ?s = activeModal s
    \<or> (activeModal ?s = None \<and> hidden (modal_el ?s m) \<and> \<not> is_closing (modal_el ?s m))"
    using p by (cases l) (auto simp: onEnd_open_fields onEnd_close_fields)
qed simp

lemma dispatch_not_opening:
  assumes "open_pending (modal_el s m) \<or> \<not> is_opening (modal_el s m)"
  shows "\<not> is_opening (modal_el (dispatch_animationend m True s) m)"
proof -
  have "open_pending (modal_el (dispatch_animationend m True s) m)
      \<or> \<not> is_opening (modal_el (dispatch_animationend m True s) m)"
    unfolding dispatch_animationend_def
  proof (rule foldl_invariant)
    fix s' :: state and l
    assume p: "open_pending (modal_el s' m) \<or> \<not> is_opening (modal_el s' m)"
    let ?s = "if l \<in> set (animationend (modal_el s' m)) then onEnd m l True s' else s'"
    show "open_pending (modal_el ?s m) \<or> \<not> is_opening (modal_el ?s m)"
      using p
      by (cases l) (auto simp: onEnd_open_fields onEnd_close_fields open_pending_iff
          removeEventListener_def)
  qed (rule assms)
  moreover have "\<not> open_pending (modal_el (dispatch_animationend m True s) m)"
    by (simp add: open_pending_def dispatch_settles_all)
  ultimately show ?thesis by blast
qed

lemma one_active_dispatch:
  assumes inv: "one_active s"
  shows "one_active (dispatch_animationend m True s)"
proof (cases "animationend (modal_el s m) = []")
  case True
  with inv show ?thesis by (simp add: dispatch_nothing_pending)
next
  case False
  let ?r = "dispatch_animationend m True s"
  from False have "\<not> at_rest (modal_el s m)" by (simp add: at_rest_def)
  with inv have act: "activeModal s = Some (Container m)" by (auto simp: one_active_iff)
  from inv have "open_pending (modal_el s m) \<or> \<not> is_opening (modal_el s m)"
    by (simp add: one_active_iff)
  then have no: "\<not> is_opening (modal_el ?r m)" by (rule dispatch_not_opening)
  have fin: "animationend (modal_el ?r m) = []" by (rule dispatch_settles_all)
  show ?thesis
    unfolding one_active_iff
  proof
    fix m'
    show "(activeModal ?r = Some (Container m') \<or> at_rest (modal_el ?r m'))
        \<and> (open_pending (modal_el ?r m') \<or> \<not> is_opening (modal_el ?r m'))"
    proof (cases "m' = m")
      case True
      from dispatch_closed[of m s] act no fin
      have "activeModal ?r = Some (Container m) \<or> at_rest (modal_el ?r m)"
        by (auto simp: at_rest_def)
      with no True show ?thesis by simp
    next
      case other: False
      with act have "activeModal s \<noteq> Some (Container m')" by simp
      with inv have "at_rest (modal_el s m')" by (auto simp: one_active_iff)
      then have "at_rest (modal_el ?r m')" by (simp add: dispatch_modal_el_other[OF other])
      then show ?thesis by (simp add: at_rest_def)
    qed
  qed
qed

lemma one_active_step: "one_active s \<Longrightarrow> one_active (step e s)"
proof (cases e)
  case (ClickOpen k)
  assume "one_active s"
  with ClickOpen show ?thesis by (simp add: one_active_openModal)
next
  case ClickClose
  assume "one_active s"
  with ClickClose show ?thesis by (simp add: one_active_closeModal)
next
  case (MouseDown m b)
  assume "one_active s"
  with MouseDown show ?thesis by (simp add: one_active_closeModal)
next
  case (KeyDown k sh inside)
  assume inv: "one_active s"
  define s1 where "s1 = (case inside of None \<Rightarrow> s | Some m' \<Rightarrow> dispatch_keydown m' k sh s)"
  have "frame s s1"
    by (simp add: s1_def frame_refl frame_dispatch_keydown split: option.splits)
  with inv have "one_active s1" by (rule one_active_frame[rotated])
  then have "one_active (if k = Escape then closeModal s1 else s1)"
    by (simp add: one_active_closeModal)
  then show ?thesis unfolding KeyDown step.simps Let_def s1_def[symmetric] .
next
  case (AnimationEnd m b)
  assume "one_active s"
  with AnimationEnd show ?thesis
    by (cases b) (simp_all add: one_active_dispatch dispatch_elsewhere)
next
  case Other
  assume "one_active s"
  with Other show ?thesis by simp
qed

lemma one_active_run: "one_active s \<Longrightarrow> one_active (run evs s)"
  by (induction evs arbitrary: s) (simp_all add: run_Nil run_Cons one_active_step)

lemma login_opening:
  "activeModal (openModal ''login'' (page [] login_form)) = Some (Container LoginWindow)"
  "animationend (modal_el (openModal ''login'' (page [] login_form)) LoginWindow) = [OnEndOpen 0]"
  "header_present (openModal ''login'' (page [] login_form))"
  "overflow (openModal ''login'' (page [] login_form)) = []"
  by (simp_all add: openModal_def modals_def page_def animateOpen_def upd_def closed_el_def
      addEventListener_def)

lemma openModal_ignored:
  "activeModal s \<noteq> None \<or> modals s K = None \<Longrightarrow> openModal K s = s \<and> step (ClickOpen K) s = s"
  by (auto simp: openModal_def split: option.splits)

lemma shown_is_active:
  "one_active s \<Longrightarrow> \<not> at_rest (modal_el s m) \<Longrightarrow> activeModal s = Some (Container m)"
  by (auto simp: one_active_iff)

text \<open>
  Once \<^verbatim>\<open>activeModal\<close> holds a value that is no element, it holds it for good: every
  open request is ignored, every close request throws at line 120, and no animation
  is pending that could clear the slot.
\<close>

lemma wedged_step:
  assumes inv: "one_active s" and w: "activeModal s = Some (Inherited n)"
  shows "one_active (step e s) \<and> activeModal (step e s) = Some (Inherited n)"
proof -
  have c: "closeModal s' = throw TypeError s'" if "activeModal s' = Some (Inherited n)" for s'
    using that by (simp add: closeModal_def)
  have t: "activeModal (throw TypeError s') = activeModal s'" for s'
    by (simp add: throw_def)
  show ?thesis
  proof (cases e)
    case (ClickOpen k)
    with inv w show ?thesis by (simp add: openModal_def split: option.splits)
  next
    case ClickClose
    with inv w show ?thesis by (simp add: c t one_active_throw)
  next
    case (MouseDown m b)
    with inv w show ?thesis by (simp add: c t one_active_throw)
  next
    case (KeyDown k sh inside)
    define s1 where "s1 = (case inside of None \<Rightarrow> s | Some m' \<Rightarrow> dispatch_keydown m' k sh s)"
    have f: "frame s s1"
      by (simp add: s1_def frame_refl frame_dispatch_keydown split: option.splits)
    with inv have i1: "one_active s1" by (rule one_active_frame[rotated])
    from f w have w1: "activeModal s1 = Some (Inherited n)" by (simp add: frame_def)
    have "one_active (if k = Escape then closeModal s1 else s1)
        \<and> activeModal (if k = Escape then closeModal s1 else s1) = Some (Inherited n)"
      using i1 w1 by (simp add: c[OF w1] t one_active_throw)
    then show ?thesis unfolding KeyDown step.simps Let_def s1_def[symmetric] .
  next
    case (AnimationEnd m b)
    from inv w have "at_rest (modal_el s m)" by (auto simp: one_active_iff)
    then have "animationend (modal_el s m) = []" by (simp add: at_rest_def)
    then have "step e s = s" by (simp add: AnimationEnd dispatch_nothing_pending)
    with inv w show ?thesis by simp
  next
    case Other
    with inv w show ?thesis by simp
  qed
qed

lemma wedged_run:
  "one_active s \<Longrightarrow> activeModal s = Some (Inherited n) \<Longrightarrow>
     one_active (run evs s) \<and> activeModal (run evs s) = Some (Inherited n)"
proof (induction evs arbitrary: s)
  case Nil
  then show ?case by (simp add: run_Nil)
next
  case (Cons e evs)
  from wedged_step[OF Cons.prems, of e] Cons.IH[of "step e s"] show ?case
    by (simp add: run_Cons)
qed

text \<open>
  Claim C1 says that \<open>openModal\<close> is a no-op while a dialog is active, so that at most
  one dialog is active at any instant, and also for a key that maps to no known
  dialog. The first holds (\<open>openModal_ignored\<close>, \<open>one_active_run\<close>, \<open>shown_is_active\<close>),
  and so does the second for a key that \<^verbatim>\<open>modals[key]\<close> does not find. On a page at
  rest, with a button whose \<^verbatim>\<open>data-open\<close> is \<open>constructor\<close>, it does not: the key maps
  to no dialog, yet \<open>openModal\<close> stores the inherited function in \<^verbatim>\<open>activeModal\<close>
  and throws in \<^verbatim>\<open>animateOpen\<close>. After that, whatever events follow, the slot keeps
  that value and every dialog stays at rest, so no dialog can be opened any more; and
  a close request throws once more.
\<close>

theorem openModal_inherited_key:
  "modals (page [] login_form) ''constructor'' = Some (Inherited ''constructor'')
   \<and> activeModal (page [] login_form) = None
   \<and> openModal ''constructor'' (page [] login_form)
       = (page [] login_form)\<lparr>activeModal := Some (Inherited ''constructor''), uncaught := [TypeError]\<rparr>
   \<and> openModal ''login'' (openModal ''constructor'' (page [] login_form))
       = openModal ''constructor'' (page [] login_form)
   \<and> uncaught (closeModal (openModal ''constructor'' (page [] login_form))) = [TypeError, TypeError]
   \<and> (\<forall>evs. activeModal (run evs (openModal ''constructor'' (page [] login_form)))
         = Some (Inherited ''constructor''))
   \<and> (\<forall>evs m. at_rest (modal_el (run evs (openModal ''constructor'' (page [] login_form))) m))"
proof -
  let ?w = "openModal ''constructor'' (page [] login_form)"
  have m: "modals (page [] login_form) ''constructor'' = Some (Inherited ''constructor'')"
    by (simp add: modals_def object_prototype_names_def)
  have a: "activeModal (page [] login_form) = None"
    by (simp add: page_def)
  have o: "?w = (page [] login_form)\<lparr>activeModal := Some (Inherited ''constructor''),
      uncaught := [TypeError]\<rparr>"
    by (simp add: openModal_def m a animateOpen_def throw_def) (simp add: page_def)
  have w: "activeModal ?w = Some (Inherited ''constructor'')"
    by (simp add: o)
  have l: "openModal ''login'' ?w = ?w"
    using openModal_ignored[of ?w "''login''"] w by simp
  have c: "uncaught (closeModal ?w) = [TypeError, TypeError]"
    by (simp add: closeModal_def w throw_def) (simp add: o)
  have i: "one_active ?w"
    by (rule one_active_openModal) (rule one_active_page)
  have r: "one_active (run evs ?w) \<and> activeModal (run evs ?w) = Some (Inherited ''constructor'')"
    for evs
    by (rule wedged_run[OF i w])
  have rest: "at_rest (modal_el (run evs ?w) m)" for evs m
    using r[of evs] by (auto simp: one_active_iff)
  show ?thesis
    using m a o l c r rest by blast
qed

section \<open>A trap that outlives its dialog\<close>

lemmas controller_defs = run_def page_def closed_el_def login_form_def openModal_def closeModal_def
  modals_def animateOpen_def animateClose_def upd_def addEventListener_def removeEventListener_def
  dispatch_animationend_def dispatch_keydown_def onEnd.simps open_continuation_def
  close_continuation_def getFocusables_def matches_selector_def hasAttribute_def getAttribute_def
  truthy_def focus_def trap_handler_def same_node_def Let_def

lemma closeModal_removes_trap:
  "activeModal s = Some (Container m) \<Longrightarrow> trap_prop (modal_el s m) = Some t \<Longrightarrow>
     t \<notin> set (keydown (modal_el (closeModal s) m))"
  by (simp add: closeModal_fields removeEventListener_def)

text \<open>
  Claim C4 asks that no trap handler stays installed once a dialog has left its open
  state. \<open>closeModal\<close> does remove the handler the dialog records, before the close
  animation starts. In the run below the login dialog is opened, closed with Escape
  before the open animation has ended, opened again once the animation has ended,
  brought to its open state and closed: the handler that the first, interrupted
  \<open>openModal\<close> installed is still on the dialog when it is closed and hidden.
\<close>

theorem trap_outlives_dialog:
  "activeModal (run [ClickOpen ''login'', KeyDown Escape False None, AnimationEnd LoginWindow True,
       ClickOpen ''login'', AnimationEnd LoginWindow True] (page [] login_form))
       = Some (Container LoginWindow)
   \<and> animationend (modal_el (run [ClickOpen ''login'', KeyDown Escape False None,
       AnimationEnd LoginWindow True, ClickOpen ''login'', AnimationEnd LoginWindow True]
       (page [] login_form)) LoginWindow) = []
   \<and> overflow (run [ClickOpen ''login'', KeyDown Escape False None, AnimationEnd LoginWindow True,
       ClickOpen ''login'', AnimationEnd LoginWindow True] (page [] login_form)) = ''hidden''
   \<and> activeModal (run [ClickOpen ''login'', KeyDown Escape False None, AnimationEnd LoginWindow True,
       ClickOpen ''login'', AnimationEnd LoginWindow True, KeyDown Escape False (Some LoginWindow),
       AnimationEnd LoginWindow True] (page [] login_form)) = None
   \<and> hidden (modal_el (run [ClickOpen ''login'', KeyDown Escape False None,
       AnimationEnd LoginWindow True, ClickOpen ''login'', AnimationEnd LoginWindow True,
       KeyDown Escape False (Some LoginWindow), AnimationEnd LoginWindow True]
       (page [] login_form)) LoginWindow)
   \<and> map trap_closure (keydown (modal_el (run [ClickOpen ''login'', KeyDown Escape False None,
       AnimationEnd LoginWindow True, ClickOpen ''login'', AnimationEnd LoginWindow True,
       KeyDown Escape False (Some LoginWindow), AnimationEnd LoginWindow True]
       (page [] login_form)) LoginWindow)) = [2]"
  by (simp add: controller_defs)

section \<open>The theorems at concrete states\<close>

lemma login_closing:
  "animationend (modal_el (run [ClickOpen ''login'', AnimationEnd LoginWindow True, ClickClose]
     (page [] login_form)) LoginWindow) = [OnEndClose 2]"
  "header_present (run [ClickOpen ''login'', AnimationEnd LoginWindow True, ClickClose]
     (page [] login_form))"
  "overflow (run [ClickOpen ''login'', AnimationEnd LoginWindow True, ClickClose]
     (page [] login_form)) = ''hidden''"
  by (simp_all add: controller_defs)

theorem effects_after_animation_witness:
  "animationend (modal_el (openModal ''login'' (page [] login_form)) LoginWindow) = [OnEndOpen 0]
   \<and> overflow (openModal ''login'' (page [] login_form)) = []
   \<and> overflow (step (KeyDown Tab False (Some LoginWindow)) (openModal ''login'' (page [] login_form))) = []
   \<and> overflow (step (AnimationEnd LoginWindow True) (openModal ''login'' (page [] login_form))) = ''hidden''
   \<and> header_aria_hidden (step (AnimationEnd LoginWindow True) (openModal ''login'' (page [] login_form)))
       = Some ''true''
   \<and> activeModal (step (AnimationEnd LoginWindow True) (openModal ''login'' (page [] login_form)))
       = Some (Container LoginWindow)
   \<and> animationend (modal_el (run [ClickOpen ''login'', AnimationEnd LoginWindow True, ClickClose]
        (page [] login_form)) LoginWindow) = [OnEndClose 2]
   \<and> overflow (run [ClickOpen ''login'', AnimationEnd LoginWindow True, ClickClose]
        (page [] login_form)) = ''hidden''
   \<and> overflow (step (AnimationEnd LoginWindow True)
        (run [ClickOpen ''login'', AnimationEnd LoginWindow True, ClickClose] (page [] login_form))) = []
   \<and> activeModal (step (AnimationEnd LoginWindow True)
        (run [ClickOpen ''login'', AnimationEnd LoginWindow True, ClickClose] (page [] login_form))) = None"
  using effects_after_animation[of "KeyDown Tab False (Some LoginWindow)"
      "openModal ''login'' (page [] login_form)" LoginWindow 0]
    effects_after_animation[of Other
      "run [ClickOpen ''login'', AnimationEnd LoginWindow True, ClickClose] (page [] login_form)"
      LoginWindow 2]
  by (simp add: login_opening login_closing del: step.simps)

theorem settles_only_on_animationend_witness:
  "list_all (\<lambda>e. e \<noteq> AnimationEnd LoginWindow True)
     [Other, AnimationEnd LoginWindow False, ClickOpen ''register'', KeyDown Tab False (Some LoginWindow)]
   \<and> OnEndOpen 0 \<in> set (animationend (modal_el (openModal ''login'' (page [] login_form)) LoginWindow))
   \<and> OnEndOpen 0 \<in> set (animationend (modal_el
        (run [Other, AnimationEnd LoginWindow False, ClickOpen ''register'',
              KeyDown Tab False (Some LoginWindow)]
           (openModal ''login'' (page [] login_form))) LoginWindow))
   \<and> animationend (modal_el (step (AnimationEnd LoginWindow True)
        (openModal ''login'' (page [] login_form))) LoginWindow) = []"
  using settles_only_on_animationend[of LoginWindow
      "[Other, AnimationEnd LoginWindow False, ClickOpen ''register'', KeyDown Tab False (Some LoginWindow)]"
      "OnEndOpen 0" "openModal ''login'' (page [] login_form)"]
  by (simp add: login_opening del: step.simps)

theorem close_while_opening_witness:
  "activeModal (openModal ''login'' (page [] login_form)) = Some (Container LoginWindow)
   \<and> animationend (modal_el (openModal ''login'' (page [] login_form)) LoginWindow) = [OnEndOpen 0]
   \<and> is_closing (modal_el (closeModal (openModal ''login'' (page [] login_form))) LoginWindow)
   \<and> overflow (onEnd LoginWindow (OnEndOpen 0) True (closeModal (openModal ''login'' (page [] login_form))))
       = ''hidden''
   \<and> activeModal (step (AnimationEnd LoginWindow True)
        (closeModal (openModal ''login'' (page [] login_form)))) = None
   \<and> hidden (modal_el (step (AnimationEnd LoginWindow True)
        (closeModal (openModal ''login'' (page [] login_form)))) LoginWindow)"
  using login_opening(1) login_opening(2)
    close_while_opening[OF login_opening(1) login_opening(2)]
  by blast

end
